theory Spec2Isabelle
  imports Main
begin


section \<open>Session registry (server/services/session-store.ts)\<close>

text \<open>
  The class \<open>SessionStore\<close> wraps one JavaScript \<open>Map\<close> from session ids to the data
  kept for an upload. A JavaScript \<open>Map\<close> iterates in insertion order, \<open>set\<close> on a key
  that is present replaces the value and keeps the key's position, \<open>set\<close> on a new key
  appends, and \<open>delete\<close> on a missing key does nothing. The model is an association
  list in insertion order.
\<close>

text \<open>
  A property of a stored object is missing or holds a value, and \<open>undefined\<close> is one
  of the values: \<open>updateSession\<close> can store it in any property, also in \<open>fileId\<close> and
  \<open>iasUrl\<close>. Reading a missing property gives \<open>undefined\<close> too, and nothing in the
  repository tells the two apart (no \<open>in\<close>, no \<open>Object.keys\<close>; \<open>JSON.stringify\<close> drops
  both). A field of the stored record is therefore what reading the property gives, and
  \<open>None\<close> is \<open>undefined\<close>.
\<close>

record session_data =
  fileId :: "string option"
  iasUrl :: "string option"
  zipPath :: "string option"
  zipSize :: "nat option"

text \<open>
  The argument of \<open>updateSession\<close> has the type \<open>Partial<{fileId; iasUrl; zipPath; zipSize}>\<close>.
  Each property is missing from the object, or present; a present property holds a
  value or \<open>undefined\<close>, which \<open>Partial\<close> admits and which the spread copies like any
  other value.
\<close>

datatype 'a property = Missing | Present 'a

record session_patch =
  patch_fileId :: "string option property"
  patch_iasUrl :: "string option property"
  patch_zipPath :: "string option property"
  patch_zipSize :: "nat option property"

type_synonym sessions = "(string \<times> session_data) list"

fun Map_get :: "('k \<times> 'v) list \<Rightarrow> 'k \<Rightarrow> 'v option" where
  "Map_get [] k = None"
| "Map_get ((k', v) # m) k = (if k' = k then Some v else Map_get m k)"

fun Map_set :: "('k \<times> 'v) list \<Rightarrow> 'k \<Rightarrow> 'v \<Rightarrow> ('k \<times> 'v) list" where
  "Map_set [] k v = [(k, v)]"
| "Map_set ((k', v') # m) k v = (if k' = k then (k, v) # m else (k', v') # Map_set m k v)"

fun Map_delete :: "('k \<times> 'v) list \<Rightarrow> 'k \<Rightarrow> ('k \<times> 'v) list" where
  "Map_delete [] k = []"
| "Map_delete ((k', v') # m) k = (if k' = k then Map_delete m k else (k', v') # Map_delete m k)"

text \<open>
  The object spread \<open>{ ...currentData, ...data }\<close>: a property that is present in
  \<open>data\<close> wins with whatever it holds, \<open>undefined\<close> included.
\<close>

definition spread :: "session_data \<Rightarrow> session_patch \<Rightarrow> session_data" where
  "spread currentData data =
     \<lparr> fileId = (case patch_fileId data of Missing \<Rightarrow> fileId currentData | Present v \<Rightarrow> v),
       iasUrl = (case patch_iasUrl data of Missing \<Rightarrow> iasUrl currentData | Present v \<Rightarrow> v),
       zipPath = (case patch_zipPath data of Missing \<Rightarrow> zipPath currentData | Present v \<Rightarrow> v),
       zipSize = (case patch_zipSize data of Missing \<Rightarrow> zipSize currentData | Present v \<Rightarrow> v) \<rparr>"

definition saveSession :: "sessions \<Rightarrow> string \<Rightarrow> session_data \<Rightarrow> sessions" where
  "saveSession st sessionId data = Map_set st sessionId data"

definition updateSession :: "sessions \<Rightarrow> string \<Rightarrow> session_patch \<Rightarrow> sessions" where
  "updateSession st sessionId data =
     (case Map_get st sessionId of
        Some currentData \<Rightarrow> Map_set st sessionId (spread currentData data)
      | None \<Rightarrow> st)"

definition getSession :: "sessions \<Rightarrow> string \<Rightarrow> session_data option" where
  "getSession st sessionId = Map_get st sessionId"

definition removeSession :: "sessions \<Rightarrow> string \<Rightarrow> sessions" where
  "removeSession st sessionId = Map_delete st sessionId"

text \<open>\<open>getLatestSession\<close> returns the last entry of the map ("the last added session").\<close>

definition getLatestSession :: "sessions \<Rightarrow> (string \<times> session_data) option" where
  "getLatestSession st =
     (let entries = st
      in if length entries = 0 then None else Some (entries ! (length entries - 1)))"

subsection \<open>Histories of registry calls\<close>

text \<open>
  The store keeps no timestamp. To speak about the time at which a session was last
  touched, a history is a list of calls, each with the time of the call; the store
  itself ignores the times.
\<close>

datatype registry_op =
    Create string session_data
  | Update string session_patch
  | Evict string

fun apply_op :: "sessions \<Rightarrow> registry_op \<Rightarrow> sessions" where
  "apply_op st (Create s d) = saveSession st s d"
| "apply_op st (Update s p) = updateSession st s p"
| "apply_op st (Evict s) = removeSession st s"

definition run_ops :: "(nat \<times> registry_op) list \<Rightarrow> sessions" where
  "run_ops history = foldl apply_op [] (map snd history)"

text \<open>
  The specification's \<open>lastTouchedAt\<close>, written from its words and not from the code:
  the time of the creation or of the latest update of a session that is in the registry.
\<close>

fun spec_touch :: "(string \<times> nat) list \<Rightarrow> nat \<times> registry_op \<Rightarrow> (string \<times> nat) list" where
  "spec_touch m (t, Create s d) = Map_set m s t"
| "spec_touch m (t, Update s p) = (case Map_get m s of Some _ \<Rightarrow> Map_set m s t | None \<Rightarrow> m)"
| "spec_touch m (t, Evict s) = Map_delete m s"

definition spec_lastTouchedAt :: "(nat \<times> registry_op) list \<Rightarrow> string \<Rightarrow> nat option" where
  "spec_lastTouchedAt history s = Map_get (foldl spec_touch [] history) s"

definition touched_no_later :: "nat option \<Rightarrow> nat option \<Rightarrow> bool" where
  "touched_no_later a b = (case (a, b) of (Some x, Some y) \<Rightarrow> x \<le> y | _ \<Rightarrow> False)"

text \<open>
  The specification's \<open>latest()\<close> contract on a history: absent on the empty registry,
  otherwise a session that no session of the registry was touched after.
\<close>

definition latest_has_greatest_lastTouchedAt :: "(nat \<times> registry_op) list \<Rightarrow> bool" where
  "latest_has_greatest_lastTouchedAt history =
     (case getLatestSession (run_ops history) of
        None \<Rightarrow> run_ops history = []
      | Some (s, d) \<Rightarrow>
          list_all (\<lambda>(s', d'). touched_no_later (spec_lastTouchedAt history s')
                                                  (spec_lastTouchedAt history s))
                   (run_ops history))"

section \<open>The process and its surroundings\<close>

text \<open>
  Everything the server does beyond computing is written into a state: the clock read by
  \<open>Date.now()\<close> (milliseconds), the two module variables of the credential cache, the
  session directories under \<open>TEMP_DIR\<close>, the session store, and the list of the
  effects carried out so far, oldest first. Of the log only the entries of level
  'error' are effects.
\<close>

datatype error =
    AxiosError nat
  | Error string
  | FsError string

text \<open>
  The effects. A wait carries its duration and the clock at which its timer fires; a
  status request carries the clock at which it is issued and its answer the clock at
  which it arrives. \<open>LogError\<close> is a call of \<open>logger.error\<close>, or of \<open>log\<close> with the type
  'error': the fixed part of its text, and the caught error when the call prints one.
\<close>

datatype event =
    Sleep nat nat
  | AuthPost
  | SubmitPost string string
  | StatusGet string nat
  | StatusAnswer string nat
  | ReportGet string
  | MetadataGet string
  | ContentGet string string
  | FileWrite string string
  | ArchiveBuild string
  | LogError string "error option"

record dir =
  mtime :: int
  files :: "(string \<times> string) list"

record world =
  clock :: nat
  ircamToken :: "string option"
  tokenExpiry :: "nat option"
  tempdir :: "(string \<times> dir) list"
  sessionStore :: sessions
  trace :: "event list"

text \<open>
  How a build of the bundle goes, seen from \<open>createProcessedFilesZip\<close>: the events that
  the archive emits, and the end. \<open>Built\<close> is the write stream closing on the bytes of
  the bundle. \<open>Rejected\<close> is a rejected promise: \<open>archive.finalize()\<close> rejects, or the
  write stream fails once \<open>output.on('error', reject)\<close> is attached. \<open>StreamError\<close> is the
  write stream failing before that, while no listener is attached.
\<close>

datatype build =
    Built string
  | Rejected error
  | ArchiveWarning error build
  | ArchiveError error
  | StreamError error

text \<open>The answers of the identity endpoint; \<open>expires_in\<close> is what the server declares.\<close>

record auth_data =
  id_token :: "string option"
  expires_in :: "nat option"

record file_ref =
  file_id :: "string option"

record report =
  binauralFile :: "file_ref option"
  immersiveFile :: "file_ref option"

record report_info =
  report :: "report option"

record job_infos =
  job_status :: "string option"
  report_info :: "report_info option"

record job_data =
  job_infos :: "job_infos option"

record submit_data =
  job_id :: "string option"

record metadata =
  filename :: string

text \<open>
  What the process cannot decide: the answer to the k-th request of each kind (\<open>Inl\<close>
  is a request that axios rejects), how long the k-th effect takes, the faults of the
  file system, the archiver, and the string functions that only build file names.
\<close>

record environment =
  auth_answers :: "nat \<Rightarrow> error + auth_data"
  submit_answer :: "error + submit_data"
  job_answers :: "nat \<Rightarrow> error + job_data"
  metadata_answer :: "string \<Rightarrow> error + metadata"
  content_answer :: "string \<Rightarrow> string \<Rightarrow> error + string"
  latency :: "nat \<Rightarrow> nat"
  readdir_fails :: bool
  stat_fails :: "string \<Rightarrow> bool"
  rm_fails :: "string \<Rightarrow> bool"
  archiver :: "(string \<times> string) list \<Rightarrow> build"
  baseFileName :: "string \<Rightarrow> string"
  zipFileName :: "string \<Rightarrow> nat \<Rightarrow> string"
  TEMP_DIR :: string

definition emit :: "event \<Rightarrow> world \<Rightarrow> world" where
  "emit e w = w\<lparr>trace := trace w @ [e]\<rparr>"

text \<open>An awaited request: the event is recorded and the clock moves by its duration.\<close>

definition request :: "environment \<Rightarrow> event \<Rightarrow> world \<Rightarrow> world" where
  "request E e w =
     w\<lparr>clock := clock w + latency E (length (trace w)), trace := trace w @ [e]\<rparr>"

text \<open>
  The \<open>catch\<close> blocks of ircam.ts have one shape: \<open>logger.error\<close> with a fixed text,
  \<open>logger.error\<close> with the error (the fields of an axios error, or the error itself),
  and \<open>throw error\<close>.
\<close>

definition logCaught :: "string \<Rightarrow> error \<Rightarrow> world \<Rightarrow> world" where
  "logCaught what e w = emit (LogError ''IRCAM Amplify'' (Some e)) (emit (LogError what None) w)"

text \<open>JavaScript truthiness of a string that may be \<open>null\<close> or \<open>undefined\<close>.\<close>

definition truthy :: "string option \<Rightarrow> bool" where
  "truthy s = (case s of None \<Rightarrow> False | Some v \<Rightarrow> v \<noteq> [])"

section \<open>Credential cache (server/services/ircam.ts)\<close>

definition auth_calls :: "world \<Rightarrow> nat" where
  "auth_calls w = length (filter (\<lambda>e. e = AuthPost) (trace w))"

definition refreshIrcamToken :: "environment \<Rightarrow> world \<Rightarrow> (error + string option) \<times> world" where
  "refreshIrcamToken E w =
     (let w1 = request E AuthPost w
      in case auth_answers E (auth_calls w) of
           Inl e \<Rightarrow> (Inl e, logCaught ''Token refresh failed'' e w1)
         | Inr data \<Rightarrow>
             (Inr (id_token data),
              w1\<lparr>ircamToken := id_token data,
                 tokenExpiry := Some (clock w1 + 30 * 60 * 1000)\<rparr>))"

definition getIrcamToken :: "world \<Rightarrow> string option" where
  "getIrcamToken w =
     (case tokenExpiry w of
        None \<Rightarrow> None
      | Some expiry \<Rightarrow>
          if \<not> truthy (ircamToken w) \<or> expiry = 0 \<or> clock w \<ge> expiry then None
          else ircamToken w)"

definition ensureValidToken :: "environment \<Rightarrow> world \<Rightarrow> (error + string option) \<times> world" where
  "ensureValidToken E w =
     (let token = getIrcamToken w
      in if \<not> truthy token then
           (case refreshIrcamToken E w of
              (Inl e, w') \<Rightarrow> (Inl e, w')
            | (Inr _, w') \<Rightarrow> (Inr (getIrcamToken w'), w'))
         else (Inr (getIrcamToken w), w))"

definition getIrcamHeaders :: "world \<Rightarrow> error + string" where
  "getIrcamHeaders w =
     (case getIrcamToken w of
        None \<Rightarrow> Inl (Error ''IRCAM token not available'')
      | Some token \<Rightarrow> if token = [] then Inl (Error ''IRCAM token not available'') else Inr token)"

text \<open>
  The time at which the cached token was issued is not stored by the code. It is the
  clock at the assignment in \<open>refreshIrcamToken\<close>, and it stays the issuance time for as
  long as the two variables of the cache are not written.
\<close>

inductive token_issued_at :: "world \<Rightarrow> nat \<Rightarrow> bool" where
  by_refresh: "refreshIrcamToken E w = (Inr r, w') \<Longrightarrow> token_issued_at w' (clock w')"
| kept: "token_issued_at w t \<Longrightarrow> ircamToken w' = ircamToken w \<Longrightarrow> tokenExpiry w' = tokenExpiry w
         \<Longrightarrow> token_issued_at w' t"

section \<open>The periodic sweeps (server/index.ts, server/routes.ts)\<close>

definition fs_readdir :: "environment \<Rightarrow> world \<Rightarrow> error + string list" where
  "fs_readdir E w =
     (if readdir_fails E then Inl (FsError ''EIO'') else Inr (map fst (tempdir w)))"

definition fs_stat :: "environment \<Rightarrow> world \<Rightarrow> string \<Rightarrow> error + dir" where
  "fs_stat E w session =
     (if stat_fails E session then Inl (FsError ''EIO'')
      else case Map_get (tempdir w) session of
             None \<Rightarrow> Inl (FsError ''ENOENT'')
           | Some d \<Rightarrow> Inr d)"

text \<open>\<open>fs.rm(path, {recursive: true, force: true})\<close>: a missing path is not an error.\<close>

definition fs_rm :: "environment \<Rightarrow> world \<Rightarrow> string \<Rightarrow> error + world" where
  "fs_rm E w session =
     (if rm_fails E session then Inl (FsError ''EIO'')
      else Inr (w\<lparr>tempdir := Map_delete (tempdir w) session\<rparr>))"

definition MAX_AGE :: int where
  "MAX_AGE = 15 * 60 * 1000"

definition MAX_SESSION_AGE :: int where
  "MAX_SESSION_AGE = 15 * 60 * 1000"

text \<open>
  \<open>cleanupTempDirectory\<close> (index.ts). The body of its loop is inside a \<open>try\<close> of
  its own: a failure is logged and the loop goes on with the next entry.
\<close>

definition cleanupTempDirectory_entry :: "environment \<Rightarrow> nat \<Rightarrow> world \<Rightarrow> string \<Rightarrow> world" where
  "cleanupTempDirectory_entry E currentTime w session =
     (case fs_stat E w session of
        Inl e \<Rightarrow> emit (LogError (''Failed to process session '' @ session) (Some e)) w
      | Inr stats \<Rightarrow>
          (let age = int currentTime - mtime stats
           in if age > MAX_AGE then
                (case fs_rm E w session of
                   Inl e \<Rightarrow> emit (LogError (''Failed to process session '' @ session) (Some e)) w
                 | Inr w1 \<Rightarrow> w1\<lparr>sessionStore := removeSession (sessionStore w1) session\<rparr>)
              else w))"

definition cleanupTempDirectory :: "environment \<Rightarrow> world \<Rightarrow> world" where
  "cleanupTempDirectory E w =
     (let currentTime = clock w
      in case fs_readdir E w of
           Inl e \<Rightarrow> emit (LogError ''Cleanup'' (Some e)) w
         | Inr sessions \<Rightarrow> foldl (cleanupTempDirectory_entry E currentTime) w sessions)"

text \<open>
  \<open>cleanupOldFiles\<close> (routes.ts). One \<open>try\<close> is around the whole loop, so the first
  failure ends the sweep.
\<close>

definition cleanupOldFiles_entry :: "environment \<Rightarrow> nat \<Rightarrow> world \<Rightarrow> string \<Rightarrow> error + world" where
  "cleanupOldFiles_entry E now w session =
     (case fs_stat E w session of
        Inl e \<Rightarrow> Inl e
      | Inr stats \<Rightarrow>
          if int now - mtime stats > MAX_SESSION_AGE then
            (case fs_rm E w session of
               Inl e \<Rightarrow> Inl e
             | Inr w1 \<Rightarrow> Inr (w1\<lparr>sessionStore := removeSession (sessionStore w1) session\<rparr>))
          else Inr w)"

fun cleanupOldFiles_loop :: "environment \<Rightarrow> nat \<Rightarrow> string list \<Rightarrow> world \<Rightarrow> (error + unit) \<times> world" where
  "cleanupOldFiles_loop E now [] w = (Inr (), w)"
| "cleanupOldFiles_loop E now (session # rest) w =
     (case cleanupOldFiles_entry E now w session of
        Inl e \<Rightarrow> (Inl e, w)
      | Inr w1 \<Rightarrow> cleanupOldFiles_loop E now rest w1)"

definition cleanupOldFiles :: "environment \<Rightarrow> world \<Rightarrow> world" where
  "cleanupOldFiles E w =
     (case fs_readdir E w of
        Inl e \<Rightarrow> emit (LogError ''Cleanup error'' (Some e)) w
      | Inr sessions \<Rightarrow>
          (let now = clock w
           in case cleanupOldFiles_loop E now sessions w of
                (Inl e, w') \<Rightarrow> emit (LogError ''Cleanup error'' (Some e)) w'
              | (Inr _, w') \<Rightarrow> w'))"

text \<open>A session is gone when neither its directory nor its registry entry is left.\<close>

definition evicted :: "world \<Rightarrow> string \<Rightarrow> bool" where
  "evicted w s = (Map_get (tempdir w) s = None \<and> getSession (sessionStore w) s = None)"

definition retained :: "world \<Rightarrow> world \<Rightarrow> string \<Rightarrow> bool" where
  "retained w w' s =
     (Map_get (tempdir w') s = Map_get (tempdir w) s \<and> Map_get (tempdir w') s \<noteq> None
      \<and> getSession (sessionStore w') s = getSession (sessionStore w) s)"

section \<open>Submitting and polling a job (spatializeAudio in server/services/ircam.ts)\<close>

text \<open>
  The status checks of the loop and the final fetch of the report are GET requests to
  the same URL \<open>IRCAM_SPATIAL_URL + jobId\<close>; the provider's answer to the k-th of them is
  \<open>job_answers E k\<close>.
\<close>

fun is_job_get :: "event \<Rightarrow> bool" where
  "is_job_get (StatusGet j t) = True"
| "is_job_get (ReportGet j) = True"
| "is_job_get e = False"

definition job_gets :: "world \<Rightarrow> nat" where
  "job_gets w = length (filter is_job_get (trace w))"

text \<open>\<open>await new Promise((resolve) => setTimeout(resolve, ms))\<close>\<close>

definition sleep :: "nat \<Rightarrow> world \<Rightarrow> world" where
  "sleep ms w = w\<lparr>clock := clock w + ms, trace := trace w @ [Sleep ms (clock w + ms)]\<rparr>"

text \<open>The POST that submits the job, up to \<open>const jobId = response.data.id\<close>.\<close>

definition submitJob :: "environment \<Rightarrow> string \<Rightarrow> string \<Rightarrow> world \<Rightarrow> (error + string) \<times> world" where
  "submitJob E ias intensity w =
     (case ensureValidToken E w of
        (Inl e, w1) \<Rightarrow> (Inl e, w1)
      | (Inr _, w1) \<Rightarrow>
          (case getIrcamHeaders w1 of
             Inl e \<Rightarrow> (Inl e, w1)
           | Inr headers \<Rightarrow>
               (let w2 = request E (SubmitPost ias intensity) w1
                in case submit_answer E of
                     Inl e \<Rightarrow> (Inl e, w2)
                   | Inr data \<Rightarrow>
                       (case job_id data of
                          None \<Rightarrow> (Inl (Error ''No job ID returned from IRCAM API''), w2)
                        | Some jobId \<Rightarrow>
                            if jobId = [] then (Inl (Error ''No job ID returned from IRCAM API''), w2)
                            else (Inr jobId, w2)))))"

text \<open>
  One turn of the \<open>while\<close> loop, with \<open>pollCount\<close> already incremented: the wait when
  this is not the first turn, the token, the status request and its answer.
\<close>

definition pollOnce :: "environment \<Rightarrow> string \<Rightarrow> nat \<Rightarrow> world \<Rightarrow> (error + string option) \<times> world" where
  "pollOnce E jobId pollCount w =
     (let w1 = (if pollCount > 1 then sleep 5000 w else w)
      in case ensureValidToken E w1 of
           (Inl e, w2) \<Rightarrow> (Inl e, w2)
         | (Inr _, w2) \<Rightarrow>
             (case getIrcamHeaders w2 of
                Inl e \<Rightarrow> (Inl e, w2)
              | Inr headers \<Rightarrow>
                  (let statusResponse = job_answers E (job_gets w2);
                       w3 = request E (StatusGet jobId (clock w2)) w2;
                       w4 = emit (StatusAnswer jobId (clock w3)) w3
                   in case statusResponse of
                        Inl e \<Rightarrow> (Inl e, w4)
                      | Inr data \<Rightarrow>
                          (case job_infos data of
                             None \<Rightarrow> (Inl (Error ''Invalid status response: missing job_infos''), w4)
                           | Some jobInfos \<Rightarrow> (Inr (job_status jobInfos), w4)))))"

text \<open>
  The loop \<open>while (processStatus !== "success" && processStatus !== "error")\<close> has no
  bound of its own. The first argument bounds the number of turns; the result \<open>None\<close>
  is a loop that is still polling after that many turns.
\<close>

fun pollLoop :: "nat \<Rightarrow> environment \<Rightarrow> string \<Rightarrow> string option \<Rightarrow> nat \<Rightarrow> world
                 \<Rightarrow> (error + string option) option \<times> world" where
  "pollLoop 0 E jobId processStatus pollCount w =
     (if processStatus \<noteq> Some ''success'' \<and> processStatus \<noteq> Some ''error'' then (None, w)
      else (Some (Inr processStatus), w))"
| "pollLoop (Suc turns) E jobId processStatus pollCount w =
     (if processStatus \<noteq> Some ''success'' \<and> processStatus \<noteq> Some ''error'' then
        (case pollOnce E jobId (pollCount + 1) w of
           (Inl e, w') \<Rightarrow> (Some (Inl e), w')
         | (Inr status, w') \<Rightarrow> pollLoop turns E jobId status (pollCount + 1) w')
      else (Some (Inr processStatus), w))"

text \<open>The optional chain \<open>jobInfos?.report_info?.report\<close> on the data of an answer.\<close>

definition nested_report :: "job_data \<Rightarrow> report option" where
  "nested_report data =
     (case job_infos data of
        None \<Rightarrow> None
      | Some jobInfos \<Rightarrow>
          (case report_info jobInfos of
             None \<Rightarrow> None
           | Some info \<Rightarrow> report info))"

text \<open>The final GET and the check \<open>!jobInfos?.report_info?.report\<close>.\<close>

definition fetchReport :: "environment \<Rightarrow> string \<Rightarrow> world \<Rightarrow> (error + report) \<times> world" where
  "fetchReport E jobId w =
     (case ensureValidToken E w of
        (Inl e, w1) \<Rightarrow> (Inl e, w1)
      | (Inr _, w1) \<Rightarrow>
          (case getIrcamHeaders w1 of
             Inl e \<Rightarrow> (Inl e, w1)
           | Inr headers \<Rightarrow>
               (let finalResponse = job_answers E (job_gets w1);
                    w2 = request E (ReportGet jobId) w1
                in case finalResponse of
                     Inl e \<Rightarrow> (Inl e, w2)
                   | Inr data \<Rightarrow>
                       (case nested_report data of
                          None \<Rightarrow> (Inl (Error ''Invalid final response: missing report''), w2)
                        | Some rep \<Rightarrow> (Inr rep, w2)))))"

text \<open>
  What the specification calls \<open>runToCompletion\<close>: the loop from \<open>processStatus = null\<close>
  and \<open>pollCount = 0\<close>, the failure on the status "error", and the final fetch.
\<close>

definition runToCompletion :: "nat \<Rightarrow> environment \<Rightarrow> string \<Rightarrow> world \<Rightarrow> (error + report) option \<times> world" where
  "runToCompletion turns E jobId w =
     (case pollLoop turns E jobId None 0 w of
        (None, w1) \<Rightarrow> (None, w1)
      | (Some (Inl e), w1) \<Rightarrow> (Some (Inl e), w1)
      | (Some (Inr processStatus), w1) \<Rightarrow>
          if processStatus = Some ''error'' then (Some (Inl (Error ''Spatialization job failed'')), w1)
          else (case fetchReport E jobId w1 of (r, w2) \<Rightarrow> (Some r, w2)))"

text \<open>
  The pace of the status checks, read off a list of effects. No wait comes before the
  first request. After an answer that arrived at the time a, the next request comes
  after exactly one wait, of 5000 ms, whose timer fires at a + 5000, and is issued no
  earlier than that. A request is issued only when no request awaits its answer, and
  the answer arrives no earlier than the request was issued. Other effects do not
  matter.
\<close>

datatype pace = Start | InFlight nat | Answered nat | Waited nat | Broken

fun pace_step :: "pace \<Rightarrow> event \<Rightarrow> pace" where
  "pace_step Broken e = Broken"
| "pace_step Start (StatusGet j t) = InFlight t"
| "pace_step (Waited fired) (StatusGet j t) = (if fired \<le> t then InFlight t else Broken)"
| "pace_step q (StatusGet j t) = Broken"
| "pace_step (InFlight issued) (StatusAnswer j t) = (if issued \<le> t then Answered t else Broken)"
| "pace_step q (StatusAnswer j t) = Broken"
| "pace_step (Answered a) (Sleep ms fired) =
     (if ms = 5000 \<and> fired = a + 5000 then Waited fired else Broken)"
| "pace_step q (Sleep ms fired) = Broken"
| "pace_step q e = q"

definition well_paced :: "event list \<Rightarrow> bool" where
  "well_paced events = (foldl pace_step Start events \<noteq> Broken)"

definition status_gets :: "event list \<Rightarrow> nat" where
  "status_gets events = length (filter (\<lambda>e. case e of StatusGet j t \<Rightarrow> True | _ \<Rightarrow> False) events)"

definition report_gets :: "event list \<Rightarrow> nat" where
  "report_gets events = length (filter (\<lambda>e. case e of ReportGet j \<Rightarrow> True | _ \<Rightarrow> False) events)"

text \<open>What a status check reads from the provider's k-th answer.\<close>

definition status_read :: "environment \<Rightarrow> nat \<Rightarrow> error + string option" where
  "status_read E k =
     (case job_answers E k of
        Inl e \<Rightarrow> Inl e
      | Inr data \<Rightarrow>
          (case job_infos data of
             None \<Rightarrow> Inl (Error ''Invalid status response: missing job_infos'')
           | Some jobInfos \<Rightarrow> Inr (job_status jobInfos)))"


text \<open>
  The statuses the provider reports from its k-th answer on are n statuses that are no
  sentinel, followed by the sentinel \<open>final\<close>.
\<close>

definition reaches :: "environment \<Rightarrow> nat \<Rightarrow> nat \<Rightarrow> string \<Rightarrow> bool" where
  "reaches E k n final =
     ((\<forall>i<n. \<exists>s. status_read E (k + i) = Inr s \<and> s \<noteq> Some ''success'' \<and> s \<noteq> Some ''error'')
      \<and> status_read E (k + n) = Inr (Some final)
      \<and> (final = ''success'' \<or> final = ''error''))"

text \<open>What the final fetch reads from the provider's k-th answer.\<close>

definition report_read :: "environment \<Rightarrow> nat \<Rightarrow> error + report" where
  "report_read E k =
     (case job_answers E k of
        Inl e \<Rightarrow> Inl e
      | Inr data \<Rightarrow>
          (case nested_report data of
             None \<Rightarrow> Inl (Error ''Invalid final response: missing report'')
           | Some rep \<Rightarrow> Inr rep))"

section \<open>Downloading the results (downloadFile and the end of spatializeAudio)\<close>

datatype artifact = Binaural | Immersive

fun type_name :: "artifact \<Rightarrow> string" where
  "type_name Binaural = ''binaural''"
| "type_name Immersive = ''immersive''"

fun ext :: "artifact \<Rightarrow> string" where
  "ext Binaural = ''.mp3''"
| "ext Immersive = ''.wav''"

text \<open>
  A file is addressed by its session directory and its name. Writing a file needs the
  directory; a new name in a directory moves the directory's modification time. A
  write that succeeds is an effect.
\<close>

definition fs_writeFile :: "world \<Rightarrow> string \<Rightarrow> string \<Rightarrow> string \<Rightarrow> error + world" where
  "fs_writeFile w session name content =
     (case Map_get (tempdir w) session of
        None \<Rightarrow> Inl (FsError ''ENOENT'')
      | Some d \<Rightarrow>
          Inr (w\<lparr>tempdir := Map_set (tempdir w) session
                   (d\<lparr>mtime := (if Map_get (files d) name = None then int (clock w) else mtime d),
                      files := Map_set (files d) name content\<rparr>),
                 trace := trace w @ [FileWrite session name]\<rparr>))"

definition fs_file :: "world \<Rightarrow> string \<times> string \<Rightarrow> string option" where
  "fs_file w p =
     (case Map_get (tempdir w) (fst p) of
        None \<Rightarrow> None
      | Some d \<Rightarrow> Map_get (files d) (snd p))"

text \<open>\<open>(await fs.stat(path)).size\<close> of a file.\<close>

definition fs_size :: "world \<Rightarrow> string \<times> string \<Rightarrow> error + nat" where
  "fs_size w p =
     (case fs_file w p of
        None \<Rightarrow> Inl (FsError ''ENOENT'')
      | Some content \<Rightarrow> Inr (length content))"

text \<open>
  \<open>downloadFile\<close> returns the path of the written file relative to \<open>TEMP_DIR\<close>, that is
  "session/name"; the model keeps the two components. Such a path is never the empty
  string, so it is truthy where the route tests it. \<open>downloadFile_try\<close> is the body of
  the \<open>try\<close>.
\<close>

definition downloadFile_try :: "environment \<Rightarrow> string \<Rightarrow> artifact \<Rightarrow> string \<Rightarrow> world
                                \<Rightarrow> (error + string \<times> string) \<times> world" where
  "downloadFile_try E fid type session w =
     (case ensureValidToken E w of
        (Inl e, w1) \<Rightarrow> (Inl e, w1)
      | (Inr _, w1) \<Rightarrow>
          (case getIrcamHeaders w1 of
             Inl e \<Rightarrow> (Inl e, w1)
           | Inr headers \<Rightarrow>
               (let w2 = request E (MetadataGet fid) w1
                in case metadata_answer E fid of
                     Inl e \<Rightarrow> (Inl e, w2)
                   | Inr metadataResponse \<Rightarrow>
                       (let originalFilename = filename metadataResponse;
                            w3 = request E (ContentGet fid originalFilename) w2
                        in case content_answer E fid originalFilename of
                             Inl e \<Rightarrow> (Inl e, w3)
                           | Inr content \<Rightarrow>
                               (let name = type_name type @ ''_''
                                             @ baseFileName E originalFilename @ ext type
                                in case fs_writeFile w3 session name content of
                                     Inl e \<Rightarrow> (Inl e, w3)
                                   | Inr w4 \<Rightarrow> (Inr (session, name), w4))))))"

definition downloadFile :: "environment \<Rightarrow> string \<Rightarrow> artifact \<Rightarrow> string \<Rightarrow> world
                            \<Rightarrow> (error + string \<times> string) \<times> world" where
  "downloadFile E fid type session w =
     (case downloadFile_try E fid type session w of
        (Inl e, w') \<Rightarrow> (Inl e, logCaught (type_name type @ '' file download failed'') e w')
      | (Inr relativePath, w') \<Rightarrow> (Inr relativePath, w'))"

record downloads =
  binaural :: "(string \<times> string) option"
  immersive :: "(string \<times> string) option"
  binauralSize :: "nat option"
  immersiveSize :: "nat option"
  sent_zipSize :: "nat option"

record spatialization =
  result_jobId :: string
  result_report :: report
  result_downloads :: downloads

text \<open>\<open>report.binauralFile?.id\<close> when it is truthy.\<close>

definition truthy_id :: "file_ref option \<Rightarrow> string option" where
  "truthy_id f =
     (case f of
        None \<Rightarrow> None
      | Some r \<Rightarrow> (case file_id r of None \<Rightarrow> None | Some i \<Rightarrow> if i = [] then None else Some i))"

definition downloadProcessed :: "environment \<Rightarrow> report \<Rightarrow> string \<Rightarrow> world \<Rightarrow> (error + downloads) \<times> world" where
  "downloadProcessed E rep session w =
     (let d0 = \<lparr>binaural = None, immersive = None, binauralSize = None,
                immersiveSize = None, sent_zipSize = None\<rparr>
      in case (case truthy_id (binauralFile rep) of
                 None \<Rightarrow> (Inr d0, w)
               | Some fid \<Rightarrow>
                   (case downloadFile E fid Binaural session w of
                      (Inl e, w1) \<Rightarrow> (Inl e, w1)
                    | (Inr p, w1) \<Rightarrow> (Inr (d0\<lparr>binaural := Some p\<rparr>), w1))) of
           (Inl e, w1) \<Rightarrow> (Inl e, w1)
         | (Inr d1, w1) \<Rightarrow>
             (case truthy_id (immersiveFile rep) of
                None \<Rightarrow> (Inr d1, w1)
              | Some fid \<Rightarrow>
                  (case downloadFile E fid Immersive session w1 of
                     (Inl e, w2) \<Rightarrow> (Inl e, w2)
                   | (Inr p, w2) \<Rightarrow> (Inr (d1\<lparr>immersive := Some p\<rparr>), w2))))"

text \<open>
  The body of the \<open>try\<close> of \<open>spatializeAudio\<close>: submit, poll and fetch, download. The
  first argument is the bound on the turns of the loop.
\<close>

definition spatializeAudio_try :: "nat \<Rightarrow> environment \<Rightarrow> string \<Rightarrow> string \<Rightarrow> string \<Rightarrow> world
                                   \<Rightarrow> (error + spatialization) option \<times> world" where
  "spatializeAudio_try turns E ias intensity session w =
     (case submitJob E ias intensity w of
        (Inl e, w1) \<Rightarrow> (Some (Inl e), w1)
      | (Inr jobId, w1) \<Rightarrow>
          (case runToCompletion turns E jobId w1 of
             (None, w2) \<Rightarrow> (None, w2)
           | (Some (Inl e), w2) \<Rightarrow> (Some (Inl e), w2)
           | (Some (Inr rep), w2) \<Rightarrow>
               (case downloadProcessed E rep session w2 of
                  (Inl e, w3) \<Rightarrow> (Some (Inl e), w3)
                | (Inr d, w3) \<Rightarrow>
                    (Some (Inr \<lparr>result_jobId = jobId, result_report = rep,
                                 result_downloads = d\<rparr>), w3))))"

definition spatializeAudio :: "nat \<Rightarrow> environment \<Rightarrow> string \<Rightarrow> string \<Rightarrow> string \<Rightarrow> world
                               \<Rightarrow> (error + spatialization) option \<times> world" where
  "spatializeAudio turns E ias intensity session w =
     (case spatializeAudio_try turns E ias intensity session w of
        (Some (Inl e), w') \<Rightarrow> (Some (Inl e), logCaught ''Spatialization failed'' e w')
      | (r, w') \<Rightarrow> (r, w'))"

section \<open>The route POST /api/spatialize (server/routes.ts)\<close>

definition path_join :: "string \<Rightarrow> string \<Rightarrow> string" where
  "path_join a b = a @ ''/'' @ b"

definition startsWith :: "string \<Rightarrow> string \<Rightarrow> bool" where
  "startsWith s p = (take (length p) s = p)"

text \<open>\<open>Promise.all\<close> over \<open>fs.stat\<close> of every session directory.\<close>

fun sessionStats :: "environment \<Rightarrow> world \<Rightarrow> string list \<Rightarrow> error + (string \<times> int) list" where
  "sessionStats E w [] = Inr []"
| "sessionStats E w (session # rest) =
     (case fs_stat E w session of
        Inl e \<Rightarrow> Inl e
      | Inr stats \<Rightarrow>
          (case sessionStats E w rest of
             Inl e \<Rightarrow> Inl e
           | Inr others \<Rightarrow> Inr ((session, mtime stats) # others)))"

text \<open>\<open>.sort((a, b) => b.timestamp - a.timestamp).map(s => s.session)\<close>; the sort is stable.\<close>

definition sortedSessions :: "(string \<times> int) list \<Rightarrow> string list" where
  "sortedSessions stats = map fst (sort_key (\<lambda>s. - snd s) stats)"

text \<open>
  How a call inside the handler ends. It returns; or it throws, which rejects its
  promise and reaches the next \<open>catch\<close>; or an exception escapes: it is raised where no
  promise of the request waits for it (in the listener of an event, or as an 'error'
  event that has no listener), no \<open>catch\<close> of the handler sees it, and the process ends
  on it.
\<close>

datatype 'a outcome = Returns 'a | Throws error | Escapes error

text \<open>
  The listeners of \<open>createProcessedFilesZip\<close> on what the archive emits: a warning with
  the code ENOENT is logged and the build goes on, any other warning is thrown from
  the listener; an error is logged and thrown from the listener. The write stream has
  no listener for an error until the last statement of the function.
\<close>

fun finishBuild :: "build \<Rightarrow> string \<Rightarrow> string \<Rightarrow> world \<Rightarrow> (string \<times> string) outcome \<times> world" where
  "finishBuild (Built bytes) session zipName w =
     (case fs_writeFile w session zipName bytes of
        Inl e \<Rightarrow> (Escapes e, w)
      | Inr w' \<Rightarrow> (Returns (session, zipName), w'))"
| "finishBuild (Rejected e) session zipName w = (Throws e, w)"
| "finishBuild (ArchiveWarning e rest) session zipName w =
     (if e = FsError ''ENOENT''
      then finishBuild rest session zipName (emit (LogError ''Archive warning'' (Some e)) w)
      else (Escapes e, w))"
| "finishBuild (ArchiveError e) session zipName w =
     (Escapes e, emit (LogError ''Archive error'' (Some e)) w)"
| "finishBuild (StreamError e) session zipName w = (Escapes e, w)"

text \<open>
  \<open>createProcessedFilesZip\<close>. The bundle is named from the original file and the time,
  both inputs are checked with \<open>fs.access\<close> (a missing one is logged and thrown), and
  the archiver turns the two files into the bytes of the bundle or fails. A bundle left
  half written by a failed build is not represented.
\<close>

definition createProcessedFilesZip :: "environment \<Rightarrow> string \<Rightarrow> string \<times> string \<Rightarrow> string \<times> string
                                        \<Rightarrow> string \<Rightarrow> world \<Rightarrow> (string \<times> string) outcome \<times> world" where
  "createProcessedFilesZip E session binauralPath immersivePath originalFileName w =
     (let w1 = emit (ArchiveBuild session) w;
          zipName = zipFileName E originalFileName (clock w1)
      in case fs_file w1 binauralPath of
           None \<Rightarrow> (Throws (FsError ''ENOENT''), emit (LogError ''Failed to access file'' None) w1)
         | Some binauralBytes \<Rightarrow>
             (case fs_file w1 immersivePath of
                None \<Rightarrow>
                  (Throws (FsError ''ENOENT''), emit (LogError ''Failed to access file'' None) w1)
              | Some immersiveBytes \<Rightarrow>
                  finishBuild (archiver E [(snd binauralPath, binauralBytes),
                                           (snd immersivePath, immersiveBytes)])
                    session zipName w1))"

text \<open>The object that the route passes to \<open>updateSession\<close>: \<open>{ zipPath, zipSize }\<close>.\<close>

definition zipPatch :: "string \<Rightarrow> nat \<Rightarrow> session_patch" where
  "zipPatch zp zs =
     \<lparr>patch_fileId = Missing, patch_iasUrl = Missing,
      patch_zipPath = Present (Some zp), patch_zipSize = Present (Some zs)\<rparr>"

text \<open>
  Lines 346 to 376 of the route: the sizes and the bundle, only when both downloads are
  there. The inner \<open>try\<close> catches a build that throws or a failed \<open>fs.stat\<close> of the
  bundle, logs it, and the route goes on to send the result.
\<close>

definition archiveStep :: "environment \<Rightarrow> string \<Rightarrow> string \<Rightarrow> spatialization \<Rightarrow> world
                            \<Rightarrow> spatialization outcome \<times> world" where
  "archiveStep E latestSession originalFile result w =
     (case binaural (result_downloads result) of
        None \<Rightarrow> (Returns result, w)
      | Some binauralPath \<Rightarrow>
          (case immersive (result_downloads result) of
             None \<Rightarrow> (Returns result, w)
           | Some immersivePath \<Rightarrow>
               (case fs_size w binauralPath of
                  Inl e \<Rightarrow> (Throws e, w)
                | Inr bsize \<Rightarrow>
                    (case fs_size w immersivePath of
                       Inl e \<Rightarrow> (Throws e, w)
                     | Inr isize \<Rightarrow>
                         (let sized = result\<lparr>result_downloads :=
                                        (result_downloads result)\<lparr>binauralSize := Some bsize,
                                                                  immersiveSize := Some isize\<rparr>\<rparr>
                          in case createProcessedFilesZip E latestSession binauralPath
                                    immersivePath originalFile w of
                               (Throws e, w1) \<Rightarrow>
                                 (Returns sized, emit (LogError ''ZIP creation failed'' (Some e)) w1)
                             | (Escapes e, w1) \<Rightarrow> (Escapes e, w1)
                             | (Returns zipFile, w1) \<Rightarrow>
                                 (case fs_size w1 zipFile of
                                    Inl e \<Rightarrow>
                                      (Returns sized,
                                       emit (LogError ''ZIP creation failed'' (Some e)) w1)
                                  | Inr zsize \<Rightarrow>
                                      (Returns (sized\<lparr>result_downloads :=
                                                   (result_downloads sized)\<lparr>sent_zipSize := Some zsize\<rparr>\<rparr>),
                                       w1\<lparr>sessionStore :=
                                            updateSession (sessionStore w1) latestSession
                                              (zipPatch
                                                 (path_join (path_join (TEMP_DIR E) (fst zipFile))
                                                            (snd zipFile))
                                                 zsize)\<rparr>)))))))"

text \<open>The body of the outer \<open>try\<close> of the route.\<close>

definition spatializeBody :: "nat \<Rightarrow> environment \<Rightarrow> string \<Rightarrow> string \<Rightarrow> world
                              \<Rightarrow> spatialization outcome option \<times> world" where
  "spatializeBody turns E ias intensity w =
     (case fs_readdir E w of
        Inl e \<Rightarrow> (Some (Throws e), w)
      | Inr sessions \<Rightarrow>
          if length sessions = 0 then (Some (Throws (Error ''No active sessions found'')), w)
          else
            (case sessionStats E w sessions of
               Inl e \<Rightarrow> (Some (Throws e), w)
             | Inr stats \<Rightarrow>
                 (case sortedSessions stats of
                    [] \<Rightarrow> (Some (Throws (Error ''No active sessions found'')), w)
                  | latestSession # _ \<Rightarrow>
                      (case Map_get (tempdir w) latestSession of
                         None \<Rightarrow> (Some (Throws (FsError ''ENOENT'')), w)
                       | Some d \<Rightarrow>
                           (case find (\<lambda>f. startsWith f ''original_'') (map fst (files d)) of
                              None \<Rightarrow> (Some (Throws (Error ''Original file not found'')), w)
                            | Some originalFile \<Rightarrow>
                                (case spatializeAudio turns E ias intensity latestSession w of
                                   (None, w1) \<Rightarrow> (None, w1)
                                 | (Some (Inl e), w1) \<Rightarrow> (Some (Throws e), w1)
                                 | (Some (Inr result), w1) \<Rightarrow>
                                     (case archiveStep E latestSession originalFile result w1 of
                                        (r, w2) \<Rightarrow> (Some r, w2))))))))"

text \<open>
  What the caller gets: the result, a failure with its status and message, or no
  response at all when an exception has escaped.
\<close>

datatype response = Json spatialization | Failure nat string | Unanswered error

text \<open>
  The handler that the specification calls \<open>handleSpatialize\<close>: every error that the body
  throws is logged and answered with status 500 and the one message "Spatialization
  failed".
\<close>

definition handleSpatialize :: "nat \<Rightarrow> environment \<Rightarrow> string option \<Rightarrow> string \<Rightarrow> world
                                \<Rightarrow> response option \<times> world" where
  "handleSpatialize turns E ias intensity w =
     (case (if truthy ias then ias else None) of
        None \<Rightarrow> (Some (Failure 400 ''Missing iasUrl parameter''),
                  emit (LogError ''Missing iasUrl parameter'' None) w)
      | Some url \<Rightarrow>
          (case spatializeBody turns E url intensity w of
             (None, w') \<Rightarrow> (None, w')
           | (Some (Throws e), w') \<Rightarrow>
               (Some (Failure 500 ''Spatialization failed''),
                emit (LogError ''Processing failed'' (Some e)) w')
           | (Some (Escapes e), w') \<Rightarrow> (Some (Unanswered e), w')
           | (Some (Returns result), w') \<Rightarrow> (Some (Json result), w')))"

section \<open>A stub provider and some small worlds\<close>

text \<open>
  The stub answers the k-th GET of the job with the k-th status of a list and, once the
  list is used up, with a fixed last answer; every other request succeeds, and every
  build of a bundle goes the one given way.
\<close>

definition stub :: "string list \<Rightarrow> job_data \<Rightarrow> build \<Rightarrow> environment" where
  "stub statuses final bundle =
     \<lparr> auth_answers = (\<lambda>k. Inr \<lparr>id_token = Some ''token'', expires_in = Some 3600\<rparr>),
       submit_answer = Inr \<lparr>job_id = Some ''job1''\<rparr>,
       job_answers = (\<lambda>k. if k < length statuses
                            then Inr \<lparr>job_infos = Some \<lparr>job_status = Some (statuses ! k),
                                                         report_info = None\<rparr>\<rparr>
                            else Inr final),
       metadata_answer = (\<lambda>fid. Inr \<lparr>filename = ''song_2_binaural.wav''\<rparr>),
       content_answer = (\<lambda>fid name. Inr ''audio''),
       latency = (\<lambda>k. 200),
       readdir_fails = False,
       stat_fails = (\<lambda>session. False),
       rm_fails = (\<lambda>session. False),
       archiver = (\<lambda>inputs. bundle),
       baseFileName = (\<lambda>name. ''song''),
       zipFileName = (\<lambda>name t. ''original_song.zip''),
       TEMP_DIR = ''temp'' \<rparr>"

definition succeeded :: "report \<Rightarrow> job_data" where
  "succeeded rep =
     \<lparr>job_infos = Some \<lparr>job_status = Some ''success'',
                          report_info = Some \<lparr>report = Some rep\<rparr>\<rparr>\<rparr>"

definition uploaded :: world where
  "uploaded =
     \<lparr> clock = 1000000, ircamToken = None, tokenExpiry = None,
       tempdir = [(''s1'', \<lparr>mtime = 990000, files = [(''original_song.wav'', ''stereo'')]\<rparr>)],
       sessionStore = [(''s1'', \<lparr>fileId = Some ''f1'', iasUrl = Some ''ias1'',
                                 zipPath = None, zipSize = None\<rparr>)],
       trace = [] \<rparr>"

text \<open>
  A session directory without a registry entry: the registry lives in memory and is
  empty after a restart, and an upload that fails after its directory was made never
  reaches \<open>saveSession\<close>.
\<close>

definition unregistered :: world where
  "unregistered = uploaded\<lparr>sessionStore := []\<rparr>"

definition aged :: world where
  "aged =
     \<lparr> clock = 16 * 60 * 1000, ircamToken = None, tokenExpiry = None,
       tempdir = [(''old'', \<lparr>mtime = 0, files = [(''original_a.wav'', ''a'')]\<rparr>),
                  (''young'', \<lparr>mtime = 2 * 60 * 1000, files = [(''original_b.wav'', ''b'')]\<rparr>)],
       sessionStore = [(''old'', \<lparr>fileId = Some ''f1'', iasUrl = Some ''ias1'',
                                  zipPath = None, zipSize = None\<rparr>),
                       (''young'', \<lparr>fileId = Some ''f2'', iasUrl = Some ''ias2'',
                                    zipPath = None, zipSize = None\<rparr>)],
       trace = [] \<rparr>"

definition quiet :: environment where
  "quiet = stub [] (succeeded \<lparr>binauralFile = None, immersiveFile = None\<rparr>) (Built [])"

text \<open>The same sessions listed after a directory on which \<open>fs.stat\<close> fails.\<close>

definition blocked :: world where
  "blocked = aged\<lparr>tempdir := (''gone'', \<lparr>mtime = 0, files = []\<rparr>) # tempdir aged\<rparr>"

definition flaky :: environment where
  "flaky = quiet\<lparr>stat_fails := (\<lambda>session. session = ''gone'')\<rparr>"

definition only_binaural :: report where
  "only_binaural = \<lparr>binauralFile = Some \<lparr>file_id = Some ''b1''\<rparr>, immersiveFile = None\<rparr>"

definition both_files :: report where
  "both_files = \<lparr>binauralFile = Some \<lparr>file_id = Some ''b1''\<rparr>,
                  immersiveFile = Some \<lparr>file_id = Some ''i1''\<rparr>\<rparr>"

definition failing_job :: environment where
  "failing_job = stub [''pending'', ''error''] (succeeded only_binaural) (Built ''zip'')"

definition succeeding_job :: "report \<Rightarrow> build \<Rightarrow> environment" where
  "succeeding_job rep bundle = stub [''pending'', ''pending'', ''success''] (succeeded rep) bundle"

definition reportless_job :: environment where
  "reportless_job =
     stub [''pending'', ''success'']
       \<lparr>job_infos = Some \<lparr>job_status = Some ''success'', report_info = None\<rparr>\<rparr> (Built ''zip'')"

text \<open>A provider whose storage refuses the content of the immersive file.\<close>

definition half_job :: environment where
  "half_job =
     (succeeding_job both_files (Built ''zip''))
       \<lparr>content_answer := (\<lambda>fid name. if fid = ''i1'' then Inl (AxiosError 404) else Inr ''audio'')\<rparr>"

section \<open>What a run leaves behind\<close>

text \<open>The effects added between two states, when the later trace extends the earlier.\<close>

definition since :: "world \<Rightarrow> world \<Rightarrow> event list" where
  "since w w' = drop (length (trace w)) (trace w')"

definition extends :: "world \<Rightarrow> world \<Rightarrow> bool" where
  "extends w w' = (trace w' = trace w @ since w w')"

definition archive_builds :: "event list \<Rightarrow> nat" where
  "archive_builds events =
     length (filter (\<lambda>e. case e of ArchiveBuild s \<Rightarrow> True | _ \<Rightarrow> False) events)"

fun logged :: "event list \<Rightarrow> (string \<times> error option) list" where
  "logged [] = []"
| "logged (LogError m e # es) = (m, e) # logged es"
| "logged (e # es) = logged es"

fun written :: "event list \<Rightarrow> (string \<times> string) list" where
  "written [] = []"
| "written (FileWrite session name # es) = (session, name) # written es"
| "written (e # es) = written es"

fun thrown :: "error + 'a \<Rightarrow> error option" where
  "thrown (Inl e) = Some e"
| "thrown (Inr v) = None"

text \<open>
  What may be logged by a step that ends with the error x, or without one: nothing when
  there is no error, and otherwise only entries that print no error or print x.
\<close>

definition reported :: "error option \<Rightarrow> event list \<Rightarrow> bool" where
  "reported x evs =
     (case x of
        None \<Rightarrow> logged evs = []
      | Some e \<Rightarrow> list_all (\<lambda>entry. snd entry = None \<or> snd entry = Some e) (logged evs))"

text \<open>
  A step that leaves the directories and the registry alone, writes no file and builds
  no bundle.
\<close>

definition untouched :: "error option \<Rightarrow> world \<Rightarrow> world \<Rightarrow> bool" where
  "untouched x w w' =
     (tempdir w' = tempdir w \<and> sessionStore w' = sessionStore w \<and> extends w w'
      \<and> archive_builds (since w w') = 0 \<and> written (since w w') = []
      \<and> reported x (since w w'))"

text \<open>Nothing that was on disk is gone: every directory and every file is still there.\<close>

definition kept_files :: "world \<Rightarrow> world \<Rightarrow> bool" where
  "kept_files w w' =
     ((\<forall>s. Map_get (tempdir w) s \<noteq> None \<longrightarrow> Map_get (tempdir w') s \<noteq> None)
      \<and> (\<forall>p. fs_file w p \<noteq> None \<longrightarrow> fs_file w' p \<noteq> None))"

text \<open>
  Nothing is rolled back: the effects are added to those before, what was on disk is
  still there, and so is every file written since.
\<close>

definition no_rollback :: "world \<Rightarrow> world \<Rightarrow> bool" where
  "no_rollback w w' =
     (extends w w' \<and> kept_files w w' \<and> list_all (\<lambda>p. fs_file w' p \<noteq> None) (written (since w w')))"

text \<open>A step that may write files but leaves the registry and the archiver alone.\<close>

definition calm :: "error option \<Rightarrow> world \<Rightarrow> world \<Rightarrow> bool" where
  "calm x w w' =
     (sessionStore w' = sessionStore w \<and> no_rollback w w'
      \<and> archive_builds (since w w') = 0 \<and> reported x (since w w'))"

text \<open>
  The claim that no failure of the request is swallowed, read on a run: when an error was
  logged while the request was handled, the caller is sent a failure.
\<close>

definition failures_surface :: "world \<Rightarrow> response option \<times> world \<Rightarrow> bool" where
  "failures_surface w run =
     (if logged (trace (snd run)) \<noteq> logged (trace w)
      then (case fst run of Some (Failure status message) \<Rightarrow> True | _ \<Rightarrow> False)
      else True)"

text \<open>
  The claim about the bundle, read on a run that sends a result: the registry entry of
  the session holds the path and the size of a bundle exactly when both artifacts were
  produced.
\<close>

definition archive_recorded :: "world \<Rightarrow> string \<Rightarrow> bool" where
  "archive_recorded w s =
     (case getSession (sessionStore w) s of
        None \<Rightarrow> False
      | Some d \<Rightarrow> zipPath d \<noteq> None \<and> zipSize d \<noteq> None)"

definition both_produced :: "spatialization \<Rightarrow> bool" where
  "both_produced sent =
     (binaural (result_downloads sent) \<noteq> None \<and> immersive (result_downloads sent) \<noteq> None)"

definition archive_iff_both :: "string \<Rightarrow> response option \<times> world \<Rightarrow> bool" where
  "archive_iff_both s run =
     (case fst run of
        Some (Json sent) \<Rightarrow> archive_recorded (snd run) s = both_produced sent
      | _ \<Rightarrow> True)"

text \<open>
  A run in which nothing breaks up to the report: the identity endpoint hands out a
  token whenever asked, the job is submitted, its statuses are n statuses that are no
  sentinel followed by "success", the final answer carries the report \<open>rep\<close>, and the
  newest session directory is \<open>latestSession\<close> and holds the original file.
\<close>

definition answered :: "environment \<Rightarrow> world \<Rightarrow> nat \<Rightarrow> report \<Rightarrow> string \<Rightarrow> string \<Rightarrow> bool" where
  "answered E w n rep latestSession originalFile =
     ((\<forall>k. \<exists>d. auth_answers E k = Inr d \<and> truthy (id_token d))
      \<and> (\<exists>sd jid. submit_answer E = Inr sd \<and> job_id sd = Some jid \<and> jid \<noteq> [])
      \<and> reaches E (job_gets w) n ''success''
      \<and> report_read E (job_gets w + n + 1) = Inr rep
      \<and> (\<exists>sessions stats others d.
             fs_readdir E w = Inr sessions \<and> sessions \<noteq> []
             \<and> sessionStats E w sessions = Inr stats
             \<and> sortedSessions stats = latestSession # others
             \<and> Map_get (tempdir w) latestSession = Some d
             \<and> find (\<lambda>f. startsWith f ''original_'') (map fst (files d)) = Some originalFile))"

text \<open>The storage hands out the metadata and the content of a file.\<close>

definition downloadable :: "environment \<Rightarrow> string \<Rightarrow> string \<Rightarrow> bool" where
  "downloadable E fid content =
     (\<exists>md. metadata_answer E fid = Inr md \<and> content_answer E fid (filename md) = Inr content)"

text \<open>The name under which \<open>downloadFile\<close> saves the file \<open>fid\<close>.\<close>

definition savedName :: "environment \<Rightarrow> string \<Rightarrow> artifact \<Rightarrow> string option" where
  "savedName E fid type =
     (case metadata_answer E fid of
        Inl e \<Rightarrow> None
      | Inr md \<Rightarrow> Some (type_name type @ ''_'' @ baseFileName E (filename md) @ ext type))"

section \<open>Facts about the registry map\<close>

lemma Map_get_set: "Map_get (Map_set m k v) k' = (if k' = k then Some v else Map_get m k')"
  by (induction m) auto

lemma Map_get_delete: "Map_get (Map_delete m k) k' = (if k' = k then None else Map_get m k')"
  by (induction m) auto

lemma Map_get_None_iff: "Map_get m k = None \<longleftrightarrow> k \<notin> fst ` set m"
  by (induction m) (force split: if_splits)+

lemma Map_delete_absent: "Map_get m k = None \<Longrightarrow> Map_delete m k = m"
  by (induction m) (auto split: if_splits)

lemma Map_delete_twice: "Map_delete (Map_delete m k) k = Map_delete m k"
  by (induction m) auto

lemma Map_set_absent: "Map_get m k = None \<Longrightarrow> Map_set m k v = m @ [(k, v)]"
  by (induction m) (auto split: if_splits)

lemma Map_set_keys_present: "Map_get m k = Some v' \<Longrightarrow> map fst (Map_set m k v) = map fst m"
  by (induction m) (auto split: if_splits)

lemma Map_delete_append_new: "Map_get m k = None \<Longrightarrow> Map_delete (m @ [(k, v)]) k = m"
  by (induction m) (auto split: if_splits)

section \<open>Eviction from the registry\<close>

text \<open>
  C8. \<open>removeSession\<close> is \<open>Map.delete\<close>: it has no failing branch, so the model is a total
  function without an error result. After \<open>removeSession st s\<close> the lookup \<open>getSession\<close>
  of \<open>s\<close> is absent, whatever the registry held; a second removal, or the removal of an
  id that was never created, leaves the registry as it is; every other id is looked up
  as before; and creating an id that was not there and evicting it gives back the very
  registry in which it never existed.
\<close>

theorem removeSession_safe_and_forgets:
  "getSession (removeSession st s) s = None
   \<and> removeSession (removeSession st s) s = removeSession st s
   \<and> (getSession st s = None \<longrightarrow> removeSession st s = st)
   \<and> (\<forall>s'. s' \<noteq> s \<longrightarrow> getSession (removeSession st s) s' = getSession st s')
   \<and> (getSession st s = None \<longrightarrow> removeSession (saveSession st s d) s = st)"
  by (simp add: getSession_def removeSession_def saveSession_def Map_get_delete
      Map_delete_twice Map_delete_absent Map_set_absent Map_delete_append_new)

theorem removeSession_safe_and_forgets_witness:
  "getSession (removeSession (removeSession
      [(''a'', \<lparr>fileId = Some ''f1'', iasUrl = Some ''u1'', zipPath = None, zipSize = None\<rparr>),
       (''b'', \<lparr>fileId = Some ''f2'', iasUrl = Some ''u2'', zipPath = None, zipSize = None\<rparr>)] ''b'') ''b'') ''b'' = None
   \<and> getSession (removeSession
      [(''a'', \<lparr>fileId = Some ''f1'', iasUrl = Some ''u1'', zipPath = None, zipSize = None\<rparr>)] ''zz'') ''zz'' = None
   \<and> removeSession
      [(''a'', \<lparr>fileId = Some ''f1'', iasUrl = Some ''u1'', zipPath = None, zipSize = None\<rparr>)] ''zz''
      = [(''a'', \<lparr>fileId = Some ''f1'', iasUrl = Some ''u1'', zipPath = None, zipSize = None\<rparr>)]"
  using removeSession_safe_and_forgets
    [of "[(''a'', \<lparr>fileId = Some ''f1'', iasUrl = Some ''u1'', zipPath = None, zipSize = None\<rparr>)]" "''zz''"]
  by (simp add: getSession_def removeSession_def)


section \<open>Partial updates of a session\<close>

text \<open>
  C10. For a session id that is in the registry and every partial update,
  \<open>updateSession\<close> stores the record in which each property that is present in the update
  holds what the update gives for it, a value or \<open>undefined\<close>, and each property that is
  missing from the update holds what was stored; so an update carrying only \<open>zipPath\<close>
  and \<open>zipSize\<close> preserves \<open>fileId\<close> and \<open>iasUrl\<close>. Every other session is looked up as
  before, and the ids of the registry and their order are unchanged. For an id that is
  not in the registry the whole registry is returned unchanged (the function has no
  failing branch).
\<close>

theorem updateSession_frame:
  "(case getSession st s of
      Some cur \<Rightarrow>
        getSession (updateSession st s p) s
          = Some \<lparr>fileId = (case patch_fileId p of Present v \<Rightarrow> v | Missing \<Rightarrow> fileId cur),
                  iasUrl = (case patch_iasUrl p of Present v \<Rightarrow> v | Missing \<Rightarrow> iasUrl cur),
                  zipPath = (case patch_zipPath p of Present v \<Rightarrow> v | Missing \<Rightarrow> zipPath cur),
                  zipSize = (case patch_zipSize p of Present v \<Rightarrow> v | Missing \<Rightarrow> zipSize cur)\<rparr>
        \<and> getSession (updateSession st s (zipPatch zp zs)) s
            = Some (cur\<lparr>zipPath := Some zp, zipSize := Some zs\<rparr>)
    | None \<Rightarrow> updateSession st s p = st)
   \<and> (\<forall>s'. s' \<noteq> s \<longrightarrow> getSession (updateSession st s p) s' = getSession st s')
   \<and> map fst (updateSession st s p) = map fst st"
  by (auto simp: getSession_def updateSession_def Map_get_set spread_def Map_set_keys_present
      zipPatch_def split: option.splits)

theorem updateSession_frame_witness:
  "getSession (updateSession
      [(''a'', \<lparr>fileId = Some ''f1'', iasUrl = Some ''u1'', zipPath = None, zipSize = None\<rparr>),
       (''b'', \<lparr>fileId = Some ''f2'', iasUrl = Some ''u2'', zipPath = None, zipSize = None\<rparr>)]
      ''a'' (zipPatch ''a/x.zip'' 42)) ''a''
     = Some \<lparr>fileId = Some ''f1'', iasUrl = Some ''u1'', zipPath = Some ''a/x.zip'', zipSize = Some 42\<rparr>
   \<and> getSession (updateSession
      [(''a'', \<lparr>fileId = Some ''f1'', iasUrl = Some ''u1'', zipPath = None, zipSize = None\<rparr>),
       (''b'', \<lparr>fileId = Some ''f2'', iasUrl = Some ''u2'', zipPath = None, zipSize = None\<rparr>)]
      ''a'' (zipPatch ''a/x.zip'' 42)) ''b''
     = Some \<lparr>fileId = Some ''f2'', iasUrl = Some ''u2'', zipPath = None, zipSize = None\<rparr>
   \<and> getSession (updateSession
      [(''a'', \<lparr>fileId = Some ''f1'', iasUrl = Some ''u1'', zipPath = Some ''a/x.zip'', zipSize = Some 42\<rparr>)]
      ''a''
      \<lparr>patch_fileId = Missing, patch_iasUrl = Missing,
       patch_zipPath = Present None, patch_zipSize = Missing\<rparr>) ''a''
     = Some \<lparr>fileId = Some ''f1'', iasUrl = Some ''u1'', zipPath = None, zipSize = Some 42\<rparr>
   \<and> updateSession
      [(''a'', \<lparr>fileId = Some ''f1'', iasUrl = Some ''u1'', zipPath = None, zipSize = None\<rparr>)]
      ''zz'' (zipPatch ''a/x.zip'' 42)
     = [(''a'', \<lparr>fileId = Some ''f1'', iasUrl = Some ''u1'', zipPath = None, zipSize = None\<rparr>)]"
proof -
  let ?a = "\<lparr>fileId = Some ''f1'', iasUrl = Some ''u1'', zipPath = None, zipSize = None\<rparr>"
  let ?b = "\<lparr>fileId = Some ''f2'', iasUrl = Some ''u2'', zipPath = None, zipSize = None\<rparr>"
  let ?z = "\<lparr>fileId = Some ''f1'', iasUrl = Some ''u1'', zipPath = Some ''a/x.zip'', zipSize = Some 42\<rparr>"
  have two: "getSession [(''a'', ?a), (''b'', ?b)] ''a'' = Some ?a"
    and one: "getSession [(''a'', ?z)] ''a'' = Some ?z"
    and none: "getSession [(''a'', ?a)] ''zz'' = None"
    by (simp_all add: getSession_def)
  from updateSession_frame [of "[(''a'', ?a), (''b'', ?b)]" "''a''" "zipPatch ''a/x.zip'' 42" "''a/x.zip''" 42]
  have first: "getSession (updateSession [(''a'', ?a), (''b'', ?b)] ''a'' (zipPatch ''a/x.zip'' 42)) ''a''
                 = Some (?a\<lparr>zipPath := Some ''a/x.zip'', zipSize := Some 42\<rparr>)"
    and other: "getSession (updateSession [(''a'', ?a), (''b'', ?b)] ''a'' (zipPatch ''a/x.zip'' 42)) ''b''
                 = getSession [(''a'', ?a), (''b'', ?b)] ''b''"
    by (simp_all add: two zipPatch_def)
  from updateSession_frame [of "[(''a'', ?z)]" "''a''"
         "\<lparr>patch_fileId = Missing, patch_iasUrl = Missing,
           patch_zipPath = Present None, patch_zipSize = Missing\<rparr>"]
  have erased: "getSession (updateSession [(''a'', ?z)] ''a''
                   \<lparr>patch_fileId = Missing, patch_iasUrl = Missing,
                    patch_zipPath = Present None, patch_zipSize = Missing\<rparr>) ''a''
                 = Some \<lparr>fileId = Some ''f1'', iasUrl = Some ''u1'', zipPath = None, zipSize = Some 42\<rparr>"
    by (simp add: one)
  from updateSession_frame [of "[(''a'', ?a)]" "''zz''" "zipPatch ''a/x.zip'' 42"]
  have absent: "updateSession [(''a'', ?a)] ''zz'' (zipPatch ''a/x.zip'' 42) = [(''a'', ?a)]"
    by (simp add: none zipPatch_def)
  from first other erased absent show ?thesis
    by (simp add: getSession_def)
qed

section \<open>The latest session\<close>

text \<open>
  C1, as the claim states it, fails: in the history "create a at time 0, create b at
  time 1, update a at time 2" the session touched last is a, and \<open>getLatestSession\<close>
  returns b.
\<close>

theorem latest_not_greatest_lastTouchedAt:
  "\<not> latest_has_greatest_lastTouchedAt
       [(0, Create ''a'' \<lparr>fileId = Some ''f1'', iasUrl = Some ''u1'', zipPath = None, zipSize = None\<rparr>),
        (1, Create ''b'' \<lparr>fileId = Some ''f2'', iasUrl = Some ''u2'', zipPath = None, zipSize = None\<rparr>),
        (2, Update ''a'' \<lparr>patch_fileId = Missing, patch_iasUrl = Missing,
                           patch_zipPath = Present (Some ''a/x.zip''), patch_zipSize = Present (Some 42)\<rparr>)]"
  by (simp add: latest_has_greatest_lastTouchedAt_def getLatestSession_def run_ops_def
      saveSession_def updateSession_def spread_def spec_lastTouchedAt_def touched_no_later_def)

text \<open>
  C1, amended. \<open>getLatestSession\<close> is absent exactly on the empty registry and otherwise
  returns the last entry in insertion order, the session added last: creating an id that
  is not in the registry makes it the latest; an update never changes which id is the
  latest; evicting the id created last gives back the latest of before. After creating
  a and then b (two ids) it returns b, and after evicting b it returns a.
\<close>

theorem getLatestSession_last_added:
  "(getLatestSession st = None \<longleftrightarrow> st = [])
   \<and> (st \<noteq> [] \<longrightarrow> getLatestSession st = Some (last st))
   \<and> (getSession st s = None \<longrightarrow> getLatestSession (saveSession st s d) = Some (s, d))
   \<and> map_option fst (getLatestSession (updateSession st s p)) = map_option fst (getLatestSession st)
   \<and> (getSession st s = None \<longrightarrow>
        getLatestSession (removeSession (saveSession st s d) s) = getLatestSession st)
   \<and> (a \<noteq> b \<longrightarrow>
        getLatestSession (saveSession (saveSession [] a da) b db) = Some (b, db)
        \<and> getLatestSession (removeSession (saveSession (saveSession [] a da) b db) b) = Some (a, da))"
proof -
  have latest: "getLatestSession xs = (if xs = [] then None else Some (last xs))" for xs
    by (simp add: getLatestSession_def last_conv_nth)
  have keys: "map fst (updateSession st s p) = map fst st"
    by (auto simp: updateSession_def Map_set_keys_present split: option.splits)
  have upd: "map_option fst (getLatestSession (updateSession st s p))
             = map_option fst (getLatestSession st)"
  proof (cases "st = []")
    case True
    then show ?thesis by (simp add: updateSession_def)
  next
    case False
    with keys have ne: "updateSession st s p \<noteq> []" by auto
    have "fst (last (updateSession st s p)) = last (map fst (updateSession st s p))"
      using ne by (simp add: last_map)
    also have "\<dots> = fst (last st)"
      using False by (simp add: keys last_map)
    finally show ?thesis using False ne by (simp add: latest)
  qed
  show ?thesis
    using upd
    by (simp add: latest getSession_def saveSession_def removeSession_def Map_set_absent
        Map_delete_append_new)
qed

theorem getLatestSession_last_added_witness:
  "getLatestSession (saveSession (saveSession []
       ''a'' \<lparr>fileId = Some ''f1'', iasUrl = Some ''u1'', zipPath = None, zipSize = None\<rparr>)
       ''b'' \<lparr>fileId = Some ''f2'', iasUrl = Some ''u2'', zipPath = None, zipSize = None\<rparr>)
     = Some (''b'', \<lparr>fileId = Some ''f2'', iasUrl = Some ''u2'', zipPath = None, zipSize = None\<rparr>)
   \<and> getLatestSession (removeSession (saveSession (saveSession []
       ''a'' \<lparr>fileId = Some ''f1'', iasUrl = Some ''u1'', zipPath = None, zipSize = None\<rparr>)
       ''b'' \<lparr>fileId = Some ''f2'', iasUrl = Some ''u2'', zipPath = None, zipSize = None\<rparr>) ''b'')
     = Some (''a'', \<lparr>fileId = Some ''f1'', iasUrl = Some ''u1'', zipPath = None, zipSize = None\<rparr>)"
  using getLatestSession_last_added
    [of "[]" "''a''" _ _ "''a''" "''b''"
        "\<lparr>fileId = Some ''f1'', iasUrl = Some ''u1'', zipPath = None, zipSize = None\<rparr>"
        "\<lparr>fileId = Some ''f2'', iasUrl = Some ''u2'', zipPath = None, zipSize = None\<rparr>"]
  by simp

section \<open>Validity window of the cached token\<close>

lemma token_issued_at_expiry:
  "token_issued_at w t \<Longrightarrow> tokenExpiry w = Some (t + 30 * 60 * 1000)"
proof (induction rule: token_issued_at.induct)
  case (by_refresh E w r w')
  then show ?case
    by (auto simp: refreshIrcamToken_def Let_def split: sum.splits)
next
  case (kept w t w')
  then show ?case by simp
qed

lemma getIrcamToken_Some_valid:
  "getIrcamToken w = Some tok \<Longrightarrow>
     ircamToken w = Some tok \<and> tok \<noteq> [] \<and> (\<exists>e. tokenExpiry w = Some e \<and> clock w < e)"
  by (auto simp: getIrcamToken_def truthy_def split: option.splits if_splits)

text \<open>
  C7. Start from a cache that is empty (as at process start) or whose token was issued
  at some time. Whenever \<open>ensureValidToken\<close> returns a token, that token is the one in
  the cache, it was issued at a time \<open>ti\<close>, and the clock at the return is less than 30
  minutes after \<open>ti\<close>. A successful \<open>refreshIrcamToken\<close> stores the token of the answer
  and sets the expiry to the clock at the assignment plus 30 minutes, whatever expiry the
  server declares; and \<open>getIrcamToken\<close> is absent whenever the clock has reached the
  expiry.
\<close>

theorem ensureValidToken_within_window:
  assumes "(ircamToken w = None \<and> tokenExpiry w = None) \<or> token_issued_at w t"
  shows "(ensureValidToken E w = (Inr (Some tok), w') \<longrightarrow>
            ircamToken w' = Some tok
            \<and> (\<exists>ti. token_issued_at w' ti \<and> clock w' < ti + 30 * 60 * 1000))
         \<and> (auth_answers E (auth_calls w) = Inr \<lparr>id_token = Some tok2, expires_in = declared\<rparr> \<longrightarrow>
              (\<exists>w2. refreshIrcamToken E w = (Inr (Some tok2), w2)
                 \<and> ircamToken w2 = Some tok2
                 \<and> tokenExpiry w2 = Some (clock w2 + 30 * 60 * 1000)
                 \<and> token_issued_at w2 (clock w2)))
         \<and> (\<forall>e. tokenExpiry w = Some e \<and> e \<le> clock w \<longrightarrow> getIrcamToken w = None)"
proof (intro conjI impI allI)
  assume run: "ensureValidToken E w = (Inr (Some tok), w')"
  show "ircamToken w' = Some tok"
    using run getIrcamToken_Some_valid
    by (auto simp: ensureValidToken_def Let_def split: if_splits prod.splits sum.splits)
  show "\<exists>ti. token_issued_at w' ti \<and> clock w' < ti + 30 * 60 * 1000"
  proof (cases "truthy (getIrcamToken w)")
    case True
    with run have same: "w' = w" and tok: "getIrcamToken w = Some tok"
      by (auto simp: ensureValidToken_def Let_def)
    from tok obtain e where e: "tokenExpiry w = Some e" "clock w < e"
      using getIrcamToken_Some_valid by blast
    with assms have issued: "token_issued_at w t" by auto
    then have "e = t + 30 * 60 * 1000"
      using token_issued_at_expiry e(1) by fastforce
    with e(2) issued same show ?thesis by auto
  next
    case False
    with run obtain r where refresh: "refreshIrcamToken E w = (Inr r, w')"
      and tok: "getIrcamToken w' = Some tok"
      by (auto simp: ensureValidToken_def Let_def split: prod.splits sum.splits)
    have issued: "token_issued_at w' (clock w')"
      using refresh by (rule token_issued_at.by_refresh)
    then show ?thesis by (intro exI [of _ "clock w'"]) simp
  qed
next
  assume ans: "auth_answers E (auth_calls w) = Inr \<lparr>id_token = Some tok2, expires_in = declared\<rparr>"
  define w2 where "w2 = snd (refreshIrcamToken E w)"
  have run: "refreshIrcamToken E w = (Inr (Some tok2), w2)"
    using ans by (simp add: w2_def refreshIrcamToken_def Let_def)
  moreover have "ircamToken w2 = Some tok2" "tokenExpiry w2 = Some (clock w2 + 30 * 60 * 1000)"
    using ans by (simp_all add: w2_def refreshIrcamToken_def Let_def)
  moreover have "token_issued_at w2 (clock w2)"
    using run by (rule token_issued_at.by_refresh)
  ultimately show "\<exists>w2. refreshIrcamToken E w = (Inr (Some tok2), w2)
                 \<and> ircamToken w2 = Some tok2
                 \<and> tokenExpiry w2 = Some (clock w2 + 30 * 60 * 1000)
                 \<and> token_issued_at w2 (clock w2)"
    by blast
next
  fix e
  assume "tokenExpiry w = Some e \<and> e \<le> clock w"
  then show "getIrcamToken w = None"
    by (simp add: getIrcamToken_def)
qed

theorem ensureValidToken_within_window_witness:
  "(ircamToken uploaded = None \<and> tokenExpiry uploaded = None)
   \<and> fst (ensureValidToken quiet uploaded) = Inr (Some ''token'')
   \<and> (\<exists>ti. token_issued_at (snd (ensureValidToken quiet uploaded)) ti
          \<and> clock (snd (ensureValidToken quiet uploaded)) < ti + 30 * 60 * 1000)
   \<and> token_issued_at ((snd (refreshIrcamToken quiet uploaded))\<lparr>clock := 2800199\<rparr>) 1000200
   \<and> ensureValidToken quiet ((snd (refreshIrcamToken quiet uploaded))\<lparr>clock := 2800199\<rparr>)
       = (Inr (Some ''token''), (snd (refreshIrcamToken quiet uploaded))\<lparr>clock := 2800199\<rparr>)
   \<and> getIrcamToken ((snd (refreshIrcamToken quiet uploaded))\<lparr>clock := 2800200\<rparr>) = None"
proof -
  have pre: "ircamToken uploaded = None \<and> tokenExpiry uploaded = None"
    by (simp add: uploaded_def)
  have returned: "fst (ensureValidToken quiet uploaded) = Inr (Some ''token'')"
    by (simp add: ensureValidToken_def refreshIrcamToken_def getIrcamToken_def truthy_def
        request_def auth_calls_def quiet_def stub_def uploaded_def Let_def)
  then have run: "ensureValidToken quiet uploaded
                    = (Inr (Some ''token''), snd (ensureValidToken quiet uploaded))"
    by (simp add: prod_eq_iff)
  from ensureValidToken_within_window
         [OF disjI1 [OF pre], of quiet "''token''" "snd (ensureValidToken quiet uploaded)"]
    run
  have first: "\<exists>ti. token_issued_at (snd (ensureValidToken quiet uploaded)) ti
                 \<and> clock (snd (ensureValidToken quiet uploaded)) < ti + 30 * 60 * 1000"
    by blast
  define W where "W = snd (refreshIrcamToken quiet uploaded)"
  have W: "W = \<lparr>clock = 1000200, ircamToken = Some ''token'', tokenExpiry = Some 2800200,
                tempdir = tempdir uploaded, sessionStore = sessionStore uploaded,
                trace = [AuthPost]\<rparr>"
    by (simp add: W_def refreshIrcamToken_def request_def auth_calls_def quiet_def stub_def
        uploaded_def Let_def)
  have "refreshIrcamToken quiet uploaded = (Inr (Some ''token''), W)"
    by (simp add: W_def refreshIrcamToken_def auth_calls_def quiet_def stub_def Let_def)
  then have "token_issued_at W (clock W)"
    by (rule token_issued_at.by_refresh)
  then have issued: "token_issued_at (W\<lparr>clock := c\<rparr>) 1000200" for c
    using token_issued_at.kept [of W "clock W" "W\<lparr>clock := c\<rparr>"] by (simp add: W)
  have cached: "ensureValidToken quiet (W\<lparr>clock := 2800199\<rparr>)
                  = (Inr (Some ''token''), W\<lparr>clock := 2800199\<rparr>)"
    by (simp add: W ensureValidToken_def getIrcamToken_def truthy_def Let_def)
  from ensureValidToken_within_window
         [OF disjI2 [OF issued [of 2800200]], of quiet]
  have expired: "getIrcamToken (W\<lparr>clock := 2800200\<rparr>) = None"
    by (simp add: W)
  show ?thesis
    using pre returned first issued [of 2800199] cached expired
    unfolding W_def by blast
qed

section \<open>The sweeps and the time to live\<close>

lemma tempdir_emit [simp]: "tempdir (emit e w) = tempdir w"
  and sessionStore_emit [simp]: "sessionStore (emit e w) = sessionStore w"
  and clock_emit [simp]: "clock (emit e w) = clock w"
  by (simp_all add: emit_def)

lemma cleanupTempDirectory_entry_other:
  "session \<noteq> s \<Longrightarrow>
     Map_get (tempdir (cleanupTempDirectory_entry E ct w session)) s = Map_get (tempdir w) s
     \<and> getSession (sessionStore (cleanupTempDirectory_entry E ct w session)) s
         = getSession (sessionStore w) s"
  by (auto simp: cleanupTempDirectory_entry_def fs_rm_def Let_def getSession_def
      removeSession_def Map_get_delete split: sum.splits if_splits)

lemma cleanupTempDirectory_entry_young:
  "Map_get (tempdir w) s = Some d \<Longrightarrow> int ct - mtime d \<le> MAX_AGE \<Longrightarrow>
     Map_get (tempdir (cleanupTempDirectory_entry E ct w s)) s = Some d
     \<and> getSession (sessionStore (cleanupTempDirectory_entry E ct w s)) s
         = getSession (sessionStore w) s"
  by (auto simp: cleanupTempDirectory_entry_def fs_stat_def Let_def split: sum.splits if_splits)

lemma cleanupTempDirectory_entry_old:
  "Map_get (tempdir w) s = Some d \<Longrightarrow> int ct - mtime d > MAX_AGE \<Longrightarrow>
   \<not> stat_fails E s \<Longrightarrow> \<not> rm_fails E s \<Longrightarrow>
     evicted (cleanupTempDirectory_entry E ct w s) s"
  by (auto simp: cleanupTempDirectory_entry_def fs_stat_def fs_rm_def Let_def evicted_def
      getSession_def removeSession_def Map_get_delete split: sum.splits if_splits)

lemma cleanupTempDirectory_entry_gone:
  "evicted w s \<Longrightarrow> evicted (cleanupTempDirectory_entry E ct w session) s"
  by (auto simp: cleanupTempDirectory_entry_def fs_rm_def Let_def evicted_def
      getSession_def removeSession_def Map_get_delete split: sum.splits if_splits)

lemma cleanupTempDirectory_loop_retains:
  "Map_get (tempdir w) s = Some d \<Longrightarrow> int ct - mtime d \<le> MAX_AGE \<Longrightarrow>
     Map_get (tempdir (foldl (cleanupTempDirectory_entry E ct) w ss)) s = Some d
     \<and> getSession (sessionStore (foldl (cleanupTempDirectory_entry E ct) w ss)) s
         = getSession (sessionStore w) s"
proof (induction ss arbitrary: w)
  case Nil
  then show ?case by simp
next
  case (Cons session rest)
  let ?w1 = "cleanupTempDirectory_entry E ct w session"
  have step: "Map_get (tempdir ?w1) s = Some d
              \<and> getSession (sessionStore ?w1) s = getSession (sessionStore w) s"
  proof (cases "session = s")
    case True
    with Cons.prems show ?thesis using cleanupTempDirectory_entry_young by simp
  next
    case False
    with Cons.prems show ?thesis using cleanupTempDirectory_entry_other [of session s] by simp
  qed
  with Cons.IH [of ?w1] Cons.prems(2) show ?case by simp
qed

lemma cleanupTempDirectory_loop_gone:
  "evicted w s \<Longrightarrow> evicted (foldl (cleanupTempDirectory_entry E ct) w ss) s"
  by (induction ss arbitrary: w) (simp_all add: cleanupTempDirectory_entry_gone)

lemma cleanupTempDirectory_loop_evicts:
  "s \<in> set ss \<Longrightarrow> Map_get (tempdir w) s = Some d \<Longrightarrow> int ct - mtime d > MAX_AGE \<Longrightarrow>
   \<not> stat_fails E s \<Longrightarrow> \<not> rm_fails E s \<Longrightarrow>
     evicted (foldl (cleanupTempDirectory_entry E ct) w ss) s"
proof (induction ss arbitrary: w)
  case Nil
  then show ?case by simp
next
  case (Cons session rest)
  let ?w1 = "cleanupTempDirectory_entry E ct w session"
  show ?case
  proof (cases "session = s")
    case True
    with Cons.prems have "evicted ?w1 s"
      using cleanupTempDirectory_entry_old by simp
    then show ?thesis using cleanupTempDirectory_loop_gone by simp
  next
    case False
    with Cons.prems have "s \<in> set rest" "Map_get (tempdir ?w1) s = Some d"
      using cleanupTempDirectory_entry_other [of session s] by simp_all
    with Cons.IH [of ?w1] Cons.prems show ?thesis by simp
  qed
qed

lemma cleanupOldFiles_entry_other:
  "cleanupOldFiles_entry E now w session = Inr w1 \<Longrightarrow> session \<noteq> s \<Longrightarrow>
     Map_get (tempdir w1) s = Map_get (tempdir w) s
     \<and> getSession (sessionStore w1) s = getSession (sessionStore w) s"
  by (auto simp: cleanupOldFiles_entry_def fs_rm_def getSession_def
      removeSession_def Map_get_delete split: sum.splits if_splits)

lemma cleanupOldFiles_entry_young:
  "cleanupOldFiles_entry E now w s = Inr w1 \<Longrightarrow>
   Map_get (tempdir w) s = Some d \<Longrightarrow> int now - mtime d \<le> MAX_SESSION_AGE \<Longrightarrow> w1 = w"
  by (auto simp: cleanupOldFiles_entry_def fs_stat_def split: sum.splits if_splits)

lemma cleanupOldFiles_entry_old:
  "Map_get (tempdir w) s = Some d \<Longrightarrow> int now - mtime d > MAX_SESSION_AGE \<Longrightarrow>
   \<not> stat_fails E s \<Longrightarrow> \<not> rm_fails E s \<Longrightarrow>
     \<exists>w1. cleanupOldFiles_entry E now w s = Inr w1 \<and> evicted w1 s"
  by (auto simp: cleanupOldFiles_entry_def fs_stat_def fs_rm_def evicted_def
      getSession_def removeSession_def Map_get_delete split: sum.splits if_splits)

lemma cleanupOldFiles_entry_ok:
  "Map_get (tempdir w) session \<noteq> None \<Longrightarrow> \<not> stat_fails E session \<Longrightarrow> \<not> rm_fails E session \<Longrightarrow>
     \<exists>w1. cleanupOldFiles_entry E now w session = Inr w1"
  by (auto simp: cleanupOldFiles_entry_def fs_stat_def fs_rm_def split: sum.splits if_splits)

lemma cleanupOldFiles_entry_gone:
  "cleanupOldFiles_entry E now w session = Inr w1 \<Longrightarrow> evicted w s \<Longrightarrow> evicted w1 s"
  by (auto simp: cleanupOldFiles_entry_def fs_rm_def evicted_def
      getSession_def removeSession_def Map_get_delete split: sum.splits if_splits)

lemma cleanupOldFiles_loop_retains:
  "Map_get (tempdir w) s = Some d \<Longrightarrow> int now - mtime d \<le> MAX_SESSION_AGE \<Longrightarrow>
     Map_get (tempdir (snd (cleanupOldFiles_loop E now ss w))) s = Some d
     \<and> getSession (sessionStore (snd (cleanupOldFiles_loop E now ss w))) s
         = getSession (sessionStore w) s"
proof (induction ss arbitrary: w)
  case Nil
  then show ?case by simp
next
  case (Cons session rest)
  show ?case
  proof (cases "cleanupOldFiles_entry E now w session")
    case (Inl e)
    with Cons.prems show ?thesis by simp
  next
    case (Inr w1)
    have "Map_get (tempdir w1) s = Some d
          \<and> getSession (sessionStore w1) s = getSession (sessionStore w) s"
    proof (cases "session = s")
      case True
      with Inr Cons.prems have "w1 = w" using cleanupOldFiles_entry_young by blast
      with Cons.prems show ?thesis by simp
    next
      case False
      with Inr Cons.prems show ?thesis using cleanupOldFiles_entry_other by simp
    qed
    with Cons.IH [of w1] Cons.prems(2) Inr show ?thesis by simp
  qed
qed

lemma cleanupOldFiles_loop_gone:
  "evicted w s \<Longrightarrow> evicted (snd (cleanupOldFiles_loop E now ss w)) s"
proof (induction ss arbitrary: w)
  case Nil
  then show ?case by simp
next
  case (Cons session rest)
  then show ?case
    by (cases "cleanupOldFiles_entry E now w session")
       (auto dest: cleanupOldFiles_entry_gone)
qed

lemma cleanupOldFiles_loop_evicts:
  "s \<in> set ss \<Longrightarrow> Map_get (tempdir w) s = Some d \<Longrightarrow> int now - mtime d > MAX_SESSION_AGE \<Longrightarrow>
   distinct ss \<Longrightarrow> \<forall>x\<in>set ss. Map_get (tempdir w) x \<noteq> None \<and> \<not> stat_fails E x \<and> \<not> rm_fails E x \<Longrightarrow>
     evicted (snd (cleanupOldFiles_loop E now ss w)) s"
proof (induction ss arbitrary: w)
  case Nil
  then show ?case by simp
next
  case (Cons session rest)
  show ?case
  proof (cases "session = s")
    case True
    with Cons.prems obtain w1 where "cleanupOldFiles_entry E now w s = Inr w1" "evicted w1 s"
      using cleanupOldFiles_entry_old [of w s d now E] by auto
    with True show ?thesis using cleanupOldFiles_loop_gone by simp
  next
    case False
    from Cons.prems obtain w1 where w1: "cleanupOldFiles_entry E now w session = Inr w1"
      using cleanupOldFiles_entry_ok [of w session E now] by auto
    have keep: "Map_get (tempdir w1) x = Map_get (tempdir w) x" if "x \<in> set rest" for x
      using that w1 Cons.prems(4) cleanupOldFiles_entry_other [of E now w session w1 x] by auto
    from False Cons.prems have "s \<in> set rest" by simp
    moreover have "Map_get (tempdir w1) s = Some d"
      using keep \<open>s \<in> set rest\<close> Cons.prems(2) by simp
    moreover have "\<forall>x\<in>set rest. Map_get (tempdir w1) x \<noteq> None \<and> \<not> stat_fails E x \<and> \<not> rm_fails E x"
      using keep Cons.prems(5) by simp
    ultimately have "evicted (snd (cleanupOldFiles_loop E now rest w1)) s"
      using Cons.IH [of w1] Cons.prems(3,4) by simp
    with w1 show ?thesis by simp
  qed
qed

lemma cleanupOldFiles_result:
  "\<not> readdir_fails E \<Longrightarrow>
     tempdir (cleanupOldFiles E w)
       = tempdir (snd (cleanupOldFiles_loop E (clock w) (map fst (tempdir w)) w))
     \<and> sessionStore (cleanupOldFiles E w)
       = sessionStore (snd (cleanupOldFiles_loop E (clock w) (map fst (tempdir w)) w))"
  by (auto simp: cleanupOldFiles_def fs_readdir_def Let_def split: prod.splits sum.splits)

lemma cleanupOldFiles_no_listing:
  "readdir_fails E \<Longrightarrow>
     tempdir (cleanupOldFiles E w) = tempdir w \<and> sessionStore (cleanupOldFiles E w) = sessionStore w"
  by (simp add: cleanupOldFiles_def fs_readdir_def)

text \<open>
  Both sweeps compare the age of a session directory, the clock minus its modification
  time, with 15 minutes. A session whose age is at most 15 minutes keeps its directory
  and its registry entry in every run, whatever fails. A session whose age exceeds 15
  minutes loses both, in \<open>cleanupTempDirectory\<close> when the listing and the two file-system
  calls on that session succeed, in \<open>cleanupOldFiles\<close> when the listing (of distinct
  names) and the calls on every listed session succeed.
\<close>

lemma sweeps_when_calls_succeed:
  assumes "Map_get (tempdir w) s = Some d"
  shows "(int (clock w) - mtime d \<le> 15 * 60 * 1000 \<longrightarrow>
            retained w (cleanupTempDirectory E w) s \<and> retained w (cleanupOldFiles E w) s)
         \<and> (int (clock w) - mtime d > 15 * 60 * 1000 \<and> \<not> readdir_fails E
              \<and> \<not> stat_fails E s \<and> \<not> rm_fails E s \<longrightarrow>
            evicted (cleanupTempDirectory E w) s)
         \<and> (int (clock w) - mtime d > 15 * 60 * 1000 \<and> \<not> readdir_fails E
              \<and> distinct (map fst (tempdir w))
              \<and> (\<forall>x\<in>fst ` set (tempdir w). \<not> stat_fails E x \<and> \<not> rm_fails E x) \<longrightarrow>
            evicted (cleanupOldFiles E w) s)"
proof (intro conjI impI)
  assume young: "int (clock w) - mtime d \<le> 15 * 60 * 1000"
  show "retained w (cleanupTempDirectory E w) s"
    using assms young cleanupTempDirectory_loop_retains [of w s d "clock w" E]
    by (simp add: retained_def cleanupTempDirectory_def fs_readdir_def MAX_AGE_def Let_def)
  show "retained w (cleanupOldFiles E w) s"
  proof (cases "readdir_fails E")
    case True
    then show ?thesis
      using assms cleanupOldFiles_no_listing [of E w] by (simp add: retained_def)
  next
    case False
    then show ?thesis
      using assms young cleanupOldFiles_result [of E w]
        cleanupOldFiles_loop_retains [of w s d "clock w" E "map fst (tempdir w)"]
      by (simp add: retained_def MAX_SESSION_AGE_def)
  qed
next
  assume old: "int (clock w) - mtime d > 15 * 60 * 1000 \<and> \<not> readdir_fails E
                \<and> \<not> stat_fails E s \<and> \<not> rm_fails E s"
  have "s \<in> set (map fst (tempdir w))"
    using assms Map_get_None_iff [of "tempdir w" s] by simp
  then show "evicted (cleanupTempDirectory E w) s"
    using assms old cleanupTempDirectory_loop_evicts [of s "map fst (tempdir w)" w d "clock w" E]
    by (simp add: cleanupTempDirectory_def fs_readdir_def MAX_AGE_def Let_def)
next
  assume old: "int (clock w) - mtime d > 15 * 60 * 1000 \<and> \<not> readdir_fails E
                \<and> distinct (map fst (tempdir w))
                \<and> (\<forall>x\<in>fst ` set (tempdir w). \<not> stat_fails E x \<and> \<not> rm_fails E x)"
  have mem: "s \<in> set (map fst (tempdir w))"
    using assms Map_get_None_iff [of "tempdir w" s] by simp
  have present: "\<forall>x\<in>set (map fst (tempdir w)).
                   Map_get (tempdir w) x \<noteq> None \<and> \<not> stat_fails E x \<and> \<not> rm_fails E x"
    using old Map_get_None_iff [of "tempdir w"] by auto
  have "evicted (snd (cleanupOldFiles_loop E (clock w) (map fst (tempdir w)) w)) s"
    using assms old mem present
      cleanupOldFiles_loop_evicts [of s "map fst (tempdir w)" w d "clock w" E]
    by (simp add: MAX_SESSION_AGE_def)
  then show "evicted (cleanupOldFiles E w) s"
    using old cleanupOldFiles_result [of E w] by (simp add: evicted_def)
qed

text \<open>
  C9. \<open>cleanupOldFiles\<close> has one \<open>try\<close> around its whole loop. Listed after a directory
  on which \<open>fs.stat\<close> fails, a session aged 16 minutes whose own calls would succeed
  keeps its directory and its registry entry: the sweep logs the error and ends.
  \<open>cleanupTempDirectory\<close>, whose \<open>try\<close> is inside the loop, logs the same failure, goes
  on and evicts that session. Both retain the session aged 14 minutes.
\<close>

theorem cleanupOldFiles_stops_at_first_failure:
  "fs_readdir flaky blocked = Inr [''gone'', ''old'', ''young'']
   \<and> Map_get (tempdir blocked) ''old'' = Some \<lparr>mtime = 0, files = [(''original_a.wav'', ''a'')]\<rparr>
   \<and> int (clock blocked) - 0 = 16 * 60 * 1000
   \<and> \<not> stat_fails flaky ''old'' \<and> \<not> rm_fails flaky ''old''
   \<and> retained blocked (cleanupOldFiles flaky blocked) ''old''
   \<and> \<not> evicted (cleanupOldFiles flaky blocked) ''old''
   \<and> logged (trace (cleanupOldFiles flaky blocked)) = [(''Cleanup error'', Some (FsError ''EIO''))]
   \<and> evicted (cleanupTempDirectory flaky blocked) ''old''
   \<and> logged (trace (cleanupTempDirectory flaky blocked))
       = [(''Failed to process session gone'', Some (FsError ''EIO''))]
   \<and> retained blocked (cleanupOldFiles flaky blocked) ''young''
   \<and> retained blocked (cleanupTempDirectory flaky blocked) ''young''"
  by (simp add: blocked_def aged_def flaky_def quiet_def stub_def fs_readdir_def fs_stat_def
      fs_rm_def cleanupOldFiles_def cleanupOldFiles_entry_def cleanupTempDirectory_def
      cleanupTempDirectory_entry_def retained_def evicted_def getSession_def removeSession_def
      MAX_AGE_def MAX_SESSION_AGE_def emit_def Let_def)
section \<open>Effects of the building blocks\<close>

lemma trace_emit [simp]: "trace (emit e w) = trace w @ [e]"
  by (simp add: emit_def)

lemma trace_request [simp]: "trace (request E e w) = trace w @ [e]"
  by (simp add: request_def)

lemma trace_sleep [simp]: "trace (sleep ms w) = trace w @ [Sleep ms (clock w + ms)]"
  by (simp add: sleep_def)

lemma trace_logCaught [simp]:
  "trace (logCaught what e w) = trace w @ [LogError what None, LogError ''IRCAM Amplify'' (Some e)]"
  by (simp add: logCaught_def)

lemma clock_request [simp]: "clock (request E e w) = clock w + latency E (length (trace w))"
  by (simp add: request_def)

lemma clock_sleep [simp]: "clock (sleep ms w) = clock w + ms"
  by (simp add: sleep_def)

lemma clock_logCaught [simp]: "clock (logCaught what e w) = clock w"
  by (simp add: logCaught_def)

text \<open>
  What \<open>ensureValidToken\<close> adds to the effects: nothing, a request for a token, or that
  request and the two log entries of the refresh that failed.
\<close>

lemma ensureValidToken_trace:
  assumes "ensureValidToken E w = (r, w')"
  shows "trace w' = trace w \<and> clock w' = clock w
       \<or> trace w' = trace w @ [AuthPost] \<and> clock w \<le> clock w'
       \<or> (\<exists>e. r = Inl e \<and> clock w \<le> clock w'
              \<and> trace w' = trace w @ [AuthPost, LogError ''Token refresh failed'' None,
                                      LogError ''IRCAM Amplify'' (Some e)])"
  using assms
  by (auto simp: ensureValidToken_def refreshIrcamToken_def Let_def
      split: if_splits sum.splits)

text \<open>The identity endpoint hands out a usable token whenever it is asked.\<close>

lemma ensureValidToken_succeeds:
  assumes "\<forall>k. \<exists>d. auth_answers E k = Inr d \<and> truthy (id_token d)"
  shows "\<exists>tok w'. ensureValidToken E w = (Inr (Some tok), w') \<and> getIrcamHeaders w' = Inr tok
           \<and> (trace w' = trace w \<or> trace w' = trace w @ [AuthPost])"
proof (cases "truthy (getIrcamToken w)")
  case True
  then obtain tok where tok: "getIrcamToken w = Some tok" "tok \<noteq> []"
    by (auto simp: truthy_def split: option.splits)
  then show ?thesis
    by (simp add: ensureValidToken_def getIrcamHeaders_def truthy_def)
next
  case False
  from assms obtain d where d: "auth_answers E (auth_calls w) = Inr d" "truthy (id_token d)"
    by blast
  then obtain tok where tok: "id_token d = Some tok" "tok \<noteq> []"
    by (auto simp: truthy_def split: option.splits)
  let ?w1 = "request E AuthPost w"
  let ?w' = "?w1\<lparr>ircamToken := Some tok, tokenExpiry := Some (clock ?w1 + 30 * 60 * 1000)\<rparr>"
  have refresh: "refreshIrcamToken E w = (Inr (Some tok), ?w')"
    using d tok by (simp add: refreshIrcamToken_def Let_def)
  have valid: "getIrcamToken ?w' = Some tok"
    using tok by (simp add: getIrcamToken_def truthy_def)
  have "ensureValidToken E w = (Inr (Some tok), ?w')"
    using False refresh valid by (simp add: ensureValidToken_def Let_def)
  moreover have "getIrcamHeaders ?w' = Inr tok"
    using valid tok by (simp add: getIrcamHeaders_def)
  moreover have "trace ?w' = trace w @ [AuthPost]"
    by simp
  ultimately show ?thesis by blast
qed

lemma job_gets_append:
  "trace w' = trace w @ evs \<Longrightarrow> job_gets w' = job_gets w + length (filter is_job_get evs)"
  by (simp add: job_gets_def)

lemma status_gets_append [simp]: "status_gets (xs @ ys) = status_gets xs + status_gets ys"
  by (simp add: status_gets_def)

lemma report_gets_append [simp]: "report_gets (xs @ ys) = report_gets xs + report_gets ys"
  by (simp add: report_gets_def)

lemma gets_simps [simp]:
  "status_gets [] = 0" "report_gets [] = 0"
  "status_gets (e # es) = (case e of StatusGet j t \<Rightarrow> 1 | _ \<Rightarrow> 0) + status_gets es"
  "report_gets (e # es) = (case e of ReportGet j \<Rightarrow> 1 | _ \<Rightarrow> 0) + report_gets es"
  by (simp_all add: status_gets_def report_gets_def split: event.splits)

subsection \<open>One turn of the loop\<close>

lemma pollOnce_succeeds:
  assumes "\<forall>k. \<exists>d. auth_answers E k = Inr d \<and> truthy (id_token d)"
  shows "\<exists>w'. pollOnce E jobId pollCount w = (status_read E (job_gets w), w')
           \<and> job_gets w' = job_gets w + 1
           \<and> status_gets (trace w') = status_gets (trace w) + 1
           \<and> report_gets (trace w') = report_gets (trace w)"
proof -
  let ?w1 = "if pollCount > 1 then sleep 5000 w else w"
  from ensureValidToken_succeeds [OF assms, of ?w1]
  obtain tok w2 where tok: "ensureValidToken E ?w1 = (Inr (Some tok), w2)"
      "getIrcamHeaders w2 = Inr tok"
      "trace w2 = trace ?w1 \<or> trace w2 = trace ?w1 @ [AuthPost]"
    by blast
  have g1: "job_gets ?w1 = job_gets w" "status_gets (trace ?w1) = status_gets (trace w)"
      "report_gets (trace ?w1) = report_gets (trace w)"
    by (simp_all add: job_gets_def)
  have g2: "job_gets w2 = job_gets w" "status_gets (trace w2) = status_gets (trace w)"
      "report_gets (trace w2) = report_gets (trace w)"
    using tok(3) g1 by (auto simp: job_gets_def)
  let ?w3 = "emit (StatusAnswer jobId (clock (request E (StatusGet jobId (clock w2)) w2)))
               (request E (StatusGet jobId (clock w2)) w2)"
  have run: "pollOnce E jobId pollCount w = (status_read E (job_gets w), ?w3)"
    using tok(1,2) g2(1)
    by (simp add: pollOnce_def status_read_def Let_def split: sum.splits option.splits)
  moreover have "job_gets ?w3 = job_gets w + 1"
    using g2(1) by (simp add: job_gets_def)
  moreover have "status_gets (trace ?w3) = status_gets (trace w) + 1"
      "report_gets (trace ?w3) = report_gets (trace w)"
    using g2(2,3) by simp_all
  ultimately show ?thesis by blast
qed

lemma pollLoop_finished:
  "processStatus = Some ''success'' \<or> processStatus = Some ''error'' \<Longrightarrow>
     pollLoop turns E jobId processStatus pollCount w = (Some (Inr processStatus), w)"
  by (cases turns) auto

lemma reaches_Suc:
  assumes "reaches E k (Suc n) final"
  shows "reaches E (Suc k) n final"
    and "\<exists>s. status_read E k = Inr s \<and> s \<noteq> Some ''success'' \<and> s \<noteq> Some ''error''"
proof -
  from assms have all: "\<forall>i<Suc n. \<exists>s. status_read E (k + i) = Inr s
                           \<and> s \<noteq> Some ''success'' \<and> s \<noteq> Some ''error''"
    and last: "status_read E (k + Suc n) = Inr (Some final)"
    and final: "final = ''success'' \<or> final = ''error''"
    unfolding reaches_def by blast+
  have "\<exists>s. status_read E (Suc k + i) = Inr s \<and> s \<noteq> Some ''success'' \<and> s \<noteq> Some ''error''"
    if "i < n" for i
  proof -
    from that have "Suc i < Suc n" by simp
    with all have "\<exists>s. status_read E (k + Suc i) = Inr s
                     \<and> s \<noteq> Some ''success'' \<and> s \<noteq> Some ''error''"
      by blast
    then show ?thesis by simp
  qed
  moreover from last have "status_read E (Suc k + n) = Inr (Some final)" by simp
  ultimately show "reaches E (Suc k) n final"
    using final unfolding reaches_def by blast
  from all have "\<exists>s. status_read E (k + 0) = Inr s \<and> s \<noteq> Some ''success'' \<and> s \<noteq> Some ''error''"
    by blast
  then show "\<exists>s. status_read E k = Inr s \<and> s \<noteq> Some ''success'' \<and> s \<noteq> Some ''error''"
    by simp
qed

lemma pollLoop_reaches:
  assumes auth: "\<forall>k. \<exists>d. auth_answers E k = Inr d \<and> truthy (id_token d)"
  shows "reaches E (job_gets w) n final \<Longrightarrow> n < turns \<Longrightarrow>
         processStatus \<noteq> Some ''success'' \<Longrightarrow> processStatus \<noteq> Some ''error'' \<Longrightarrow>
         \<exists>w'. pollLoop turns E jobId processStatus pollCount w = (Some (Inr (Some final)), w')
           \<and> job_gets w' = job_gets w + n + 1
           \<and> status_gets (trace w') = status_gets (trace w) + n + 1
           \<and> report_gets (trace w') = report_gets (trace w)"
proof (induction n arbitrary: w turns processStatus pollCount)
  case 0
  then obtain t where t: "turns = Suc t" by (cases turns) auto
  from 0(1) have read: "status_read E (job_gets w) = Inr (Some final)"
    and final: "Some final = Some ''success'' \<or> Some final = Some ''error''"
    by (simp_all add: reaches_def)
  from pollOnce_succeeds [OF auth, of jobId "Suc pollCount" w] obtain w1
    where w1: "pollOnce E jobId (Suc pollCount) w = (status_read E (job_gets w), w1)"
      "job_gets w1 = job_gets w + 1"
      "status_gets (trace w1) = status_gets (trace w) + 1"
      "report_gets (trace w1) = report_gets (trace w)"
    by blast
  have "pollLoop turns E jobId processStatus pollCount w
          = pollLoop t E jobId (Some final) (Suc pollCount) w1"
    using 0(3,4) by (simp add: t w1(1) read)
  also have "\<dots> = (Some (Inr (Some final)), w1)"
    using final by (rule pollLoop_finished)
  finally show ?case using w1 by simp
next
  case (Suc n)
  then obtain t where t: "turns = Suc t" "n < t" by (cases turns) auto
  from reaches_Suc [OF Suc.prems(1)] obtain s where s: "status_read E (job_gets w) = Inr s"
      "s \<noteq> Some ''success''" "s \<noteq> Some ''error''"
    and rest: "reaches E (Suc (job_gets w)) n final"
    by blast
  from pollOnce_succeeds [OF auth, of jobId "Suc pollCount" w] obtain w1
    where w1: "pollOnce E jobId (Suc pollCount) w = (status_read E (job_gets w), w1)"
      "job_gets w1 = job_gets w + 1"
      "status_gets (trace w1) = status_gets (trace w) + 1"
      "report_gets (trace w1) = report_gets (trace w)"
    by blast
  from rest w1(2) have "reaches E (job_gets w1) n final" by simp
  from Suc.IH [OF this t(2) s(2,3), of "Suc pollCount"] obtain w'
    where w': "pollLoop t E jobId s (Suc pollCount) w1 = (Some (Inr (Some final)), w')"
      "job_gets w' = job_gets w1 + n + 1"
      "status_gets (trace w') = status_gets (trace w1) + n + 1"
      "report_gets (trace w') = report_gets (trace w1)"
    by blast
  have "pollLoop turns E jobId processStatus pollCount w = pollLoop t E jobId s (Suc pollCount) w1"
    using Suc.prems(3,4) by (simp add: t(1) w1(1) s(1))
  with w' w1 show ?case by simp
qed

lemma fetchReport_succeeds:
  assumes "\<forall>k. \<exists>d. auth_answers E k = Inr d \<and> truthy (id_token d)"
  shows "\<exists>w'. fetchReport E jobId w = (report_read E (job_gets w), w')
           \<and> job_gets w' = job_gets w + 1
           \<and> status_gets (trace w') = status_gets (trace w)
           \<and> report_gets (trace w') = report_gets (trace w) + 1"
proof -
  from ensureValidToken_succeeds [OF assms, of w]
  obtain tok w1 where tok: "ensureValidToken E w = (Inr (Some tok), w1)"
      "getIrcamHeaders w1 = Inr tok"
      "trace w1 = trace w \<or> trace w1 = trace w @ [AuthPost]"
    by blast
  have g1: "job_gets w1 = job_gets w" "status_gets (trace w1) = status_gets (trace w)"
      "report_gets (trace w1) = report_gets (trace w)"
    using tok(3) by (auto simp: job_gets_def)
  let ?w2 = "request E (ReportGet jobId) w1"
  have "fetchReport E jobId w = (report_read E (job_gets w), ?w2)"
    using tok(1,2) g1(1)
    by (simp add: fetchReport_def report_read_def Let_def split: sum.splits option.splits)
  moreover have "job_gets ?w2 = job_gets w + 1"
    using g1(1) by (simp add: job_gets_def)
  moreover have "status_gets (trace ?w2) = status_gets (trace w)"
      "report_gets (trace ?w2) = report_gets (trace w) + 1"
    using g1(2,3) by simp_all
  ultimately show ?thesis by blast
qed

lemma stub_hands_out_tokens:
  "\<forall>k. \<exists>d. auth_answers (stub statuses final bundle) k = Inr d \<and> truthy (id_token d)"
  by (simp add: stub_def truthy_def)

section \<open>Termination of the polling on a sentinel\<close>

text \<open>
  C5. Let the identity endpoint hand out a token whenever asked, and let the statuses
  the provider reports for the job be n statuses that are no sentinel followed by a
  sentinel. With any bound above n on the number of turns, \<open>runToCompletion\<close> returns.
  On the sentinel "error" it returns the error "Spatialization job failed" (the code's
  \<open>JobFailedError\<close>), after n + 1 requests to the job and without a fetch of the report.
  On the sentinel "success" it returns the report that the answer to the final fetch
  carries.
\<close>

theorem runToCompletion_reaches_sentinel:
  assumes "\<forall>k. \<exists>d. auth_answers E k = Inr d \<and> truthy (id_token d)"
    and "reaches E (job_gets w) n final"
    and "n < turns"
  shows "(final = ''error'' \<longrightarrow>
            (\<exists>w'. runToCompletion turns E jobId w
                     = (Some (Inl (Error ''Spatialization job failed'')), w')
                \<and> report_gets (trace w') = report_gets (trace w)
                \<and> job_gets w' = job_gets w + n + 1))
         \<and> (final = ''success'' \<longrightarrow>
              (\<forall>rep. report_read E (job_gets w + n + 1) = Inr rep \<longrightarrow>
                 (\<exists>w'. runToCompletion turns E jobId w = (Some (Inr rep), w'))))"
proof -
  from pollLoop_reaches [OF assms(1,2,3), of None jobId 0]
  obtain w1 where w1: "pollLoop turns E jobId None 0 w = (Some (Inr (Some final)), w1)"
      "job_gets w1 = job_gets w + n + 1"
      "status_gets (trace w1) = status_gets (trace w) + n + 1"
      "report_gets (trace w1) = report_gets (trace w)"
    by auto
  from fetchReport_succeeds [OF assms(1), of jobId w1]
  obtain w2 where w2: "fetchReport E jobId w1 = (report_read E (job_gets w1), w2)"
    by blast
  show ?thesis
    using w1 w2 by (simp add: runToCompletion_def)
qed

theorem runToCompletion_reaches_sentinel_witness:
  "reaches failing_job (job_gets uploaded) 1 ''error''
   \<and> (\<exists>w'. runToCompletion 5 failing_job ''job1'' uploaded
              = (Some (Inl (Error ''Spatialization job failed'')), w')
         \<and> report_gets (trace w') = 0 \<and> job_gets w' = 2)
   \<and> reaches (succeeding_job only_binaural (Built ''zip'')) (job_gets uploaded) 2 ''success''
   \<and> (\<exists>w'. runToCompletion 5 (succeeding_job only_binaural (Built ''zip'')) ''job1'' uploaded
              = (Some (Inr only_binaural), w'))"
proof -
  have start: "job_gets uploaded = 0" "report_gets (trace uploaded) = 0"
    by (simp_all add: job_gets_def report_gets_def uploaded_def)
  have a1: "\<forall>k. \<exists>d. auth_answers failing_job k = Inr d \<and> truthy (id_token d)"
    unfolding failing_job_def by (rule stub_hands_out_tokens)
  have a2: "\<forall>k. \<exists>d. auth_answers (succeeding_job only_binaural (Built ''zip'')) k = Inr d
                     \<and> truthy (id_token d)"
    unfolding succeeding_job_def by (rule stub_hands_out_tokens)
  have r1: "reaches failing_job (job_gets uploaded) 1 ''error''"
    by (simp add: start reaches_def status_read_def failing_job_def stub_def)
  have r2: "reaches (succeeding_job only_binaural (Built ''zip'')) (job_gets uploaded) 2 ''success''"
    by (auto simp: start reaches_def status_read_def succeeding_job_def stub_def
        numeral_2_eq_2 less_Suc_eq)
  have rep: "report_read (succeeding_job only_binaural (Built ''zip'')) (job_gets uploaded + 2 + 1)
               = Inr only_binaural"
    by (simp add: start report_read_def nested_report_def succeeding_job_def stub_def succeeded_def)
  from runToCompletion_reaches_sentinel [OF a1 r1, of 5 "''job1''"]
  have e: "\<exists>w'. runToCompletion 5 failing_job ''job1'' uploaded
                  = (Some (Inl (Error ''Spatialization job failed'')), w')
             \<and> report_gets (trace w') = 0 \<and> job_gets w' = 2"
    by (simp add: start numeral_2_eq_2)
  from runToCompletion_reaches_sentinel [OF a2 r2, of 5 "''job1''"] rep
  have s: "\<exists>w'. runToCompletion 5 (succeeding_job only_binaural (Built ''zip'')) ''job1'' uploaded
                  = (Some (Inr only_binaural), w')"
    by simp
  from r1 e r2 s show ?thesis by blast
qed

section \<open>The final fetch of the report\<close>

text \<open>
  C6. Under the same conditions, when the sentinel is "success", \<open>runToCompletion\<close>
  returns after exactly one GET more than the n + 1 status checks, the fetch of the
  report. When the data of that answer lacks \<open>job_infos.report_info.report\<close>, whatever
  status it carries, the result is the error "Invalid final response: missing report"
  (the code's \<open>MalformedResponseError\<close>); when the report is there, it is the result.
\<close>

theorem runToCompletion_fetches_report_once:
  assumes "\<forall>k. \<exists>d. auth_answers E k = Inr d \<and> truthy (id_token d)"
    and "reaches E (job_gets w) n ''success''"
    and "n < turns"
  shows "\<exists>r w'. runToCompletion turns E jobId w = (Some r, w')
           \<and> status_gets (trace w') = status_gets (trace w) + n + 1
           \<and> report_gets (trace w') = report_gets (trace w) + 1
           \<and> job_gets w' = job_gets w + n + 2
           \<and> (\<forall>data. job_answers E (job_gets w + n + 1) = Inr data \<longrightarrow>
                 (case nested_report data of
                    None \<Rightarrow> r = Inl (Error ''Invalid final response: missing report'')
                  | Some rep \<Rightarrow> r = Inr rep))"
proof -
  from pollLoop_reaches [OF assms(1,2,3), of None jobId 0]
  obtain w1 where w1: "pollLoop turns E jobId None 0 w = (Some (Inr (Some ''success'')), w1)"
      "job_gets w1 = job_gets w + n + 1"
      "status_gets (trace w1) = status_gets (trace w) + n + 1"
      "report_gets (trace w1) = report_gets (trace w)"
    by auto
  from fetchReport_succeeds [OF assms(1), of jobId w1]
  obtain w2 where w2: "fetchReport E jobId w1 = (report_read E (job_gets w1), w2)"
      "job_gets w2 = job_gets w1 + 1"
      "status_gets (trace w2) = status_gets (trace w1)"
      "report_gets (trace w2) = report_gets (trace w1) + 1"
    by blast
  have k: "job_gets w + n + 1 = job_gets w1"
    using w1(2) by simp
  have run: "runToCompletion turns E jobId w = (Some (report_read E (job_gets w1)), w2)"
    using w1(1) w2(1) by (simp add: runToCompletion_def)
  have shape: "\<forall>data. job_answers E (job_gets w1) = Inr data \<longrightarrow>
                 (case nested_report data of
                    None \<Rightarrow> report_read E (job_gets w1)
                              = Inl (Error ''Invalid final response: missing report'')
                  | Some rep \<Rightarrow> report_read E (job_gets w1) = Inr rep)"
    by (simp add: report_read_def split: option.splits)
  have counts: "status_gets (trace w2) = status_gets (trace w) + n + 1"
      "report_gets (trace w2) = report_gets (trace w) + 1"
      "job_gets w2 = job_gets w + n + 2"
    using w1(2,3,4) w2(2,3,4) by simp_all
  show ?thesis
    unfolding k using run shape counts by blast
qed

theorem runToCompletion_fetches_report_once_witness:
  "reaches reportless_job (job_gets uploaded) 1 ''success''
   \<and> (\<exists>w'. runToCompletion 5 reportless_job ''job1'' uploaded
              = (Some (Inl (Error ''Invalid final response: missing report'')), w')
         \<and> status_gets (trace w') = 2 \<and> report_gets (trace w') = 1)"
proof -
  have start: "job_gets uploaded = 0" "report_gets (trace uploaded) = 0"
      "status_gets (trace uploaded) = 0"
    by (simp_all add: job_gets_def report_gets_def status_gets_def uploaded_def)
  have r1: "reaches reportless_job (job_gets uploaded) 1 ''success''"
    by (simp add: start reaches_def status_read_def reportless_job_def stub_def)
  have final: "job_answers reportless_job (job_gets uploaded + 1 + 1)
                 = Inr \<lparr>job_infos = Some \<lparr>job_status = Some ''success'', report_info = None\<rparr>\<rparr>"
    by (simp add: start reportless_job_def stub_def)
  have missing: "nested_report \<lparr>job_infos = Some \<lparr>job_status = Some ''success'',
                                                  report_info = None\<rparr>\<rparr> = None"
    by (simp add: nested_report_def)
  have auth: "\<forall>k. \<exists>d. auth_answers reportless_job k = Inr d \<and> truthy (id_token d)"
    unfolding reportless_job_def by (rule stub_hands_out_tokens)
  have turns: "(1::nat) < 5" by simp
  from runToCompletion_fetches_report_once [OF auth r1 turns, of "''job1''"]
  obtain r w' where run: "runToCompletion 5 reportless_job ''job1'' uploaded = (Some r, w')"
      "status_gets (trace w') = status_gets (trace uploaded) + 1 + 1"
      "report_gets (trace w') = report_gets (trace uploaded) + 1"
      "\<forall>data. job_answers reportless_job (job_gets uploaded + 1 + 1) = Inr data \<longrightarrow>
         (case nested_report data of
            None \<Rightarrow> r = Inl (Error ''Invalid final response: missing report'')
          | Some rep \<Rightarrow> r = Inr rep)"
    by blast
  from run(4) final have "case nested_report \<lparr>job_infos = Some \<lparr>job_status = Some ''success'',
                                                  report_info = None\<rparr>\<rparr> of
                             None \<Rightarrow> r = Inl (Error ''Invalid final response: missing report'')
                           | Some rep \<Rightarrow> r = Inr rep"
    by blast
  then have "r = Inl (Error ''Invalid final response: missing report'')"
    by (simp add: missing)
  with run(1,2,3) start have "runToCompletion 5 reportless_job ''job1'' uploaded
              = (Some (Inl (Error ''Invalid final response: missing report'')), w')
         \<and> status_gets (trace w') = 2 \<and> report_gets (trace w') = 1"
    by simp
  with r1 show ?thesis by blast
qed

section \<open>The pace of the status checks\<close>

lemma pace_neutral [simp]:
  "pace_step q AuthPost = q" "pace_step q (LogError m x) = q" "pace_step q (ReportGet j) = q"
  by (cases q; simp)+

text \<open>The effects of \<open>ensureValidToken\<close> do not count for the pace, and take no time back.\<close>

lemma ensureValidToken_pace:
  assumes "ensureValidToken E w = (r, w')"
  shows "\<exists>evs. trace w' = trace w @ evs \<and> (\<forall>q. foldl pace_step q evs = q)
           \<and> status_gets evs = 0 \<and> clock w \<le> clock w'"
  using ensureValidToken_trace [OF assms]
proof (elim disjE exE conjE)
  assume "trace w' = trace w" "clock w' = clock w"
  then show ?thesis by (intro exI [of _ "[]"]) simp
next
  assume "trace w' = trace w @ [AuthPost]" "clock w \<le> clock w'"
  then show ?thesis by (intro exI [of _ "[AuthPost]"]) simp
next
  fix e
  assume "clock w \<le> clock w'"
    "trace w' = trace w @ [AuthPost, LogError ''Token refresh failed'' None,
                           LogError ''IRCAM Amplify'' (Some e)]"
  then show ?thesis
    by (intro exI [of _ "[AuthPost, LogError ''Token refresh failed'' None,
                          LogError ''IRCAM Amplify'' (Some e)]"]) simp
qed

text \<open>
  One turn, from the start or from an answer that arrived at the clock of the state:
  the pace is kept, an answer leaves the pace at the clock of the new state, and a
  turn that is not the first takes at least 5000 ms.
\<close>

lemma pollOnce_pace:
  assumes "pollOnce E jobId (Suc pc) w = (r, w')"
  shows "\<exists>evs. trace w' = trace w @ evs
           \<and> foldl pace_step (if pc = 0 then Start else Answered (clock w)) evs \<noteq> Broken
           \<and> (\<forall>s. r = Inr s \<longrightarrow>
                 foldl pace_step (if pc = 0 then Start else Answered (clock w)) evs
                   = Answered (clock w'))
           \<and> status_gets evs \<le> 1
           \<and> clock w + (if pc = 0 then 0 else 5000) \<le> clock w'"
proof -
  let ?w1 = "if Suc pc > 1 then sleep 5000 w else w"
  let ?sevs = "if pc = 0 then [] else [Sleep 5000 (clock w + 5000)]"
  let ?q0 = "if pc = 0 then Start else Answered (clock w)"
  let ?q1 = "if pc = 0 then Start else Waited (clock w + 5000)"
  obtain r2 w2 where e: "ensureValidToken E ?w1 = (r2, w2)" by fastforce
  from ensureValidToken_pace [OF e] obtain aevs
    where aevs: "trace w2 = trace ?w1 @ aevs" "\<forall>q. foldl pace_step q aevs = q"
      "status_gets aevs = 0" "clock ?w1 \<le> clock w2"
    by blast
  have t2: "trace w2 = trace w @ ?sevs @ aevs"
    using aevs(1) by simp
  have slept: "foldl pace_step ?q0 (?sevs @ aevs) = ?q1"
    using aevs(2) by simp
  have c2: "clock w + (if pc = 0 then 0 else 5000) \<le> clock w2"
    using aevs(4) by (simp split: if_splits)
  have n2: "status_gets (?sevs @ aevs) = 0"
    using aevs(3) by simp
  let ?w3 = "request E (StatusGet jobId (clock w2)) w2"
  let ?w4 = "emit (StatusAnswer jobId (clock ?w3)) ?w3"
  consider (stop) "w' = w2" "\<forall>s. r \<noteq> Inr s" | (got) "w' = ?w4"
    using assms e by (auto simp: pollOnce_def Let_def split: sum.splits option.splits)
  then show ?thesis
  proof cases
    case stop
    have "foldl pace_step ?q0 (?sevs @ aevs) \<noteq> Broken"
      unfolding slept by simp
    with stop t2 c2 n2 show ?thesis
      by (intro exI [of _ "?sevs @ aevs"]) simp
  next
    case got
    let ?gevs = "[StatusGet jobId (clock w2), StatusAnswer jobId (clock ?w3)]"
    have t4: "trace w' = trace w @ (?sevs @ aevs) @ ?gevs"
      using t2 got by simp
    have "foldl pace_step ?q0 ((?sevs @ aevs) @ ?gevs)
            = foldl pace_step (foldl pace_step ?q0 (?sevs @ aevs)) ?gevs"
      by (rule foldl_append)
    also have "\<dots> = foldl pace_step ?q1 ?gevs"
      by (simp only: slept)
    also have "\<dots> = Answered (clock ?w3)"
      using c2 by (cases "pc = 0") simp_all
    finally have paced: "foldl pace_step ?q0 ((?sevs @ aevs) @ ?gevs) = Answered (clock w')"
      using got by simp
    have "status_gets ((?sevs @ aevs) @ ?gevs) \<le> 1"
      using n2 by simp
    moreover have "clock w + (if pc = 0 then 0 else 5000) \<le> clock w'"
      using c2 got by simp
    ultimately show ?thesis
      using t4 paced by (intro exI [of _ "(?sevs @ aevs) @ ?gevs"]) simp
  qed
qed

lemma pollLoop_pace:
  "pollLoop turns E jobId processStatus pc w = (r, w') \<Longrightarrow>
     \<exists>evs. trace w' = trace w @ evs
       \<and> foldl pace_step (if pc = 0 then Start else Answered (clock w)) evs \<noteq> Broken
       \<and> clock w + 5000 * status_gets evs \<le> clock w' + (if pc = 0 then 5000 else 0)"
proof (induction turns arbitrary: processStatus pc w)
  case 0
  then have "w' = w" by (auto split: if_splits)
  then show ?case by (intro exI [of _ "[]"]) simp
next
  case (Suc turns)
  show ?case
  proof (cases "processStatus \<noteq> Some ''success'' \<and> processStatus \<noteq> Some ''error''")
    case False
    with Suc.prems have "w' = w" by auto
    then show ?thesis by (intro exI [of _ "[]"]) simp
  next
    case True
    let ?q0 = "if pc = 0 then Start else Answered (clock w)"
    obtain r1 w1 where once: "pollOnce E jobId (Suc pc) w = (r1, w1)" by fastforce
    from pollOnce_pace [OF once] obtain evs1
      where evs1: "trace w1 = trace w @ evs1"
        "foldl pace_step ?q0 evs1 \<noteq> Broken"
        "\<forall>s. r1 = Inr s \<longrightarrow> foldl pace_step ?q0 evs1 = Answered (clock w1)"
        "status_gets evs1 \<le> 1"
        "clock w + (if pc = 0 then 0 else 5000) \<le> clock w1"
      by blast
    have time1: "clock w + 5000 * status_gets evs1 \<le> clock w1 + (if pc = 0 then 5000 else 0)"
      using evs1(4,5) by (simp split: if_splits)
    show ?thesis
    proof (cases r1)
      case (Inl e)
      with Suc.prems True once have "w' = w1" by simp
      with evs1 time1 show ?thesis by blast
    next
      case (Inr s)
      with Suc.prems True once have "pollLoop turns E jobId s (Suc pc) w1 = (r, w')" by simp
      from Suc.IH [OF this] obtain evs2
        where evs2: "trace w' = trace w1 @ evs2"
          "foldl pace_step (Answered (clock w1)) evs2 \<noteq> Broken"
          "clock w1 + 5000 * status_gets evs2 \<le> clock w'"
        by auto
      have "trace w' = trace w @ evs1 @ evs2"
        using evs1(1) evs2(1) by simp
      moreover have "foldl pace_step ?q0 (evs1 @ evs2) \<noteq> Broken"
        using evs1(3) Inr evs2(2) by simp
      moreover have "clock w + 5000 * status_gets (evs1 @ evs2)
                       \<le> clock w' + (if pc = 0 then 5000 else 0)"
        using time1 evs2(3) by (simp add: distrib_left)
      ultimately show ?thesis by blast
    qed
  qed
qed

lemma fetchReport_pace:
  assumes "fetchReport E jobId w = (r, w')"
  shows "\<exists>evs. trace w' = trace w @ evs \<and> (\<forall>q. foldl pace_step q evs = q)
           \<and> status_gets evs = 0 \<and> clock w \<le> clock w'"
proof -
  obtain r1 w1 where e: "ensureValidToken E w = (r1, w1)" by fastforce
  from ensureValidToken_pace [OF e] obtain aevs
    where aevs: "trace w1 = trace w @ aevs" "\<forall>q. foldl pace_step q aevs = q"
      "status_gets aevs = 0" "clock w \<le> clock w1"
    by blast
  consider (stop) "w' = w1" | (got) "w' = request E (ReportGet jobId) w1"
    using assms e by (auto simp: fetchReport_def Let_def split: sum.splits option.splits)
  then show ?thesis
  proof cases
    case stop
    with aevs show ?thesis by blast
  next
    case got
    then have "trace w' = trace w @ aevs @ [ReportGet jobId]"
      using aevs(1) by simp
    moreover have "foldl pace_step q (aevs @ [ReportGet jobId]) = q" for q
      using aevs(2) by simp
    moreover have "status_gets (aevs @ [ReportGet jobId]) = 0"
      using aevs(3) by simp
    moreover have "clock w \<le> clock w'"
      using aevs(4) got by simp
    ultimately show ?thesis by blast
  qed
qed

text \<open>
  C4. Whatever the provider answers and however many turns are allowed, also when the
  loop is cut off while it is still polling or ends in an error, the effects of
  \<open>runToCompletion\<close> are added after those before it, and among them: no wait comes
  before the first status request; after the answer to a status request, the next status
  request comes after exactly one wait, of 5000 ms, whose timer fires 5000 ms after that
  answer arrived, and is issued no earlier; and a status request is issued only when
  none awaits its answer. So with k status requests at least 5000 (k - 1) ms have
  passed. When a token can be had and at least one turn is allowed, a status request
  is issued.
\<close>

theorem status_checks_well_paced:
  assumes "runToCompletion turns E jobId w = (r, w')"
  shows "\<exists>evs. trace w' = trace w @ evs \<and> well_paced evs
           \<and> clock w + 5000 * status_gets evs \<le> clock w' + 5000
           \<and> ((\<forall>k. \<exists>d. auth_answers E k = Inr d \<and> truthy (id_token d)) \<and> 0 < turns
                \<longrightarrow> 1 \<le> status_gets evs)"
proof -
  obtain r1 w1 where loop: "pollLoop turns E jobId None 0 w = (r1, w1)" by fastforce
  from pollLoop_pace [OF loop] obtain evs1
    where evs1: "trace w1 = trace w @ evs1" "foldl pace_step Start evs1 \<noteq> Broken"
      "clock w + 5000 * status_gets evs1 \<le> clock w1 + 5000"
    by auto
  have polled: "1 \<le> status_gets evs1"
    if auth: "\<forall>k. \<exists>d. auth_answers E k = Inr d \<and> truthy (id_token d)" and "0 < turns"
  proof -
    from \<open>0 < turns\<close> obtain t where t: "turns = Suc t" by (cases turns) auto
    from pollOnce_succeeds [OF auth, of jobId "Suc 0" w] obtain w0
      where w0: "pollOnce E jobId (Suc 0) w = (status_read E (job_gets w), w0)"
        "status_gets (trace w0) = status_gets (trace w) + 1"
      by blast
    have "\<exists>evs. trace w1 = trace w0 @ evs"
    proof (cases "status_read E (job_gets w)")
      case (Inl e)
      with loop t w0(1) show ?thesis by simp
    next
      case (Inr s)
      with loop t w0(1) have "pollLoop t E jobId s (Suc 0) w0 = (r1, w1)" by simp
      from pollLoop_pace [OF this] show ?thesis by blast
    qed
    then obtain evs where "trace w1 = trace w0 @ evs" by blast
    then have "status_gets (trace w1) = status_gets (trace w) + 1 + status_gets evs"
      using w0(2) by simp
    with evs1(1) show ?thesis by simp
  qed
  consider (same) "w' = w1" | (fetched) r2 where "fetchReport E jobId w1 = (r2, w')"
    using assms loop
    by (auto simp: runToCompletion_def split: option.splits sum.splits if_splits prod.splits)
  then show ?thesis
  proof cases
    case same
    with evs1 polled show ?thesis
      by (intro exI [of _ evs1]) (simp add: well_paced_def)
  next
    case fetched
    from fetchReport_pace [OF fetched] obtain evs2
      where evs2: "trace w' = trace w1 @ evs2" "\<forall>q. foldl pace_step q evs2 = q"
        "status_gets evs2 = 0" "clock w1 \<le> clock w'"
      by blast
    have "trace w' = trace w @ evs1 @ evs2"
      using evs1(1) evs2(1) by simp
    moreover have "well_paced (evs1 @ evs2)"
      using evs1(2) evs2(2) by (simp add: well_paced_def)
    moreover have "clock w + 5000 * status_gets (evs1 @ evs2) \<le> clock w' + 5000"
      using evs1(3) evs2(3,4) by simp
    moreover have "1 \<le> status_gets (evs1 @ evs2)"
      if "\<forall>k. \<exists>d. auth_answers E k = Inr d \<and> truthy (id_token d)" "0 < turns"
      using polled [OF that] by simp
    ultimately show ?thesis by blast
  qed
qed

lemma runToCompletion_polls:
  assumes "\<forall>k. \<exists>d. auth_answers E k = Inr d \<and> truthy (id_token d)"
    and "reaches E (job_gets w) n final"
    and "n < turns"
  shows "status_gets (trace (snd (runToCompletion turns E jobId w))) = status_gets (trace w) + n + 1"
proof -
  from pollLoop_reaches [OF assms(1,2,3), of None jobId 0]
  obtain w1 where w1: "pollLoop turns E jobId None 0 w = (Some (Inr (Some final)), w1)"
      "status_gets (trace w1) = status_gets (trace w) + n + 1"
    by auto
  from fetchReport_succeeds [OF assms(1), of jobId w1]
  obtain w2 where w2: "fetchReport E jobId w1 = (report_read E (job_gets w1), w2)"
      "status_gets (trace w2) = status_gets (trace w1)"
    by blast
  show ?thesis
    using w1 w2 by (simp add: runToCompletion_def)
qed

theorem status_checks_well_paced_witness:
  "(\<forall>k. \<exists>d. auth_answers (succeeding_job only_binaural (Built ''zip'')) k = Inr d
          \<and> truthy (id_token d))
   \<and> (\<exists>evs. trace (snd (runToCompletion 5 (succeeding_job only_binaural (Built ''zip'')) ''job1'' uploaded))
           = trace uploaded @ evs
        \<and> well_paced evs \<and> status_gets evs = 3
        \<and> clock uploaded + 10000
            \<le> clock (snd (runToCompletion 5 (succeeding_job only_binaural (Built ''zip''))
                             ''job1'' uploaded)))"
proof -
  let ?E = "succeeding_job only_binaural (Built ''zip'')"
  let ?w' = "snd (runToCompletion 5 ?E ''job1'' uploaded)"
  have auth: "\<forall>k. \<exists>d. auth_answers ?E k = Inr d \<and> truthy (id_token d)"
    unfolding succeeding_job_def by (rule stub_hands_out_tokens)
  have start: "job_gets uploaded = 0" "status_gets (trace uploaded) = 0"
    by (simp_all add: job_gets_def status_gets_def uploaded_def)
  have poll: "reaches ?E (job_gets uploaded) 2 ''success''"
    by (auto simp: start reaches_def status_read_def succeeding_job_def stub_def
        numeral_2_eq_2 less_Suc_eq)
  have turns: "(2::nat) < 5" by simp
  have three: "status_gets (trace ?w') = 3"
    using runToCompletion_polls [OF auth poll turns, of "''job1''"] start by simp
  from status_checks_well_paced [OF surjective_pairing, of 5 ?E "''job1''" uploaded]
  obtain evs where evs: "trace ?w' = trace uploaded @ evs" "well_paced evs"
      "clock uploaded + 5000 * status_gets evs \<le> clock ?w' + 5000"
      "(\<forall>k. \<exists>d. auth_answers ?E k = Inr d \<and> truthy (id_token d)) \<and> (0::nat) < 5
         \<longrightarrow> 1 \<le> status_gets evs"
    by blast
  from evs(4) auth have "1 \<le> status_gets evs" by simp
  have n: "status_gets evs = 3"
    using three evs(1) start by simp
  with evs(3) have "clock uploaded + 10000 \<le> clock ?w'" by simp
  with evs(1,2) n have "\<exists>evs. trace ?w' = trace uploaded @ evs \<and> well_paced evs
          \<and> status_gets evs = 3 \<and> clock uploaded + 10000 \<le> clock ?w'"
    by blast
  with auth show ?thesis by (intro conjI)
qed


end
